theory Spec2Isabelle
  imports Main "HOL-Library.Word" "HOL-Library.Log_Nat"
begin

unbundle bit_operations_syntax

section \<open>Byte reading utilities (schema\_interpreter.h, lines 206--282)\<close>

text \<open>
  A C pointer \<open>const uint8_t* buf\<close> is modelled by the list of the bytes that start at
  the pointer; \<open>buf + n\<close> is \<open>drop n buf\<close>.  The readers themselves perform no bounds
  check (their callers do), so they index the list directly, exactly as the C code
  indexes the pointer.  Unsigned results are words of the C result type; the signed
  readers return the same bit pattern, read as two's complement with \<open>sint\<close>.
\<close>

type_synonym byte = "8 word"

definition read_u8 :: "byte list \<Rightarrow> 8 word" where
  "read_u8 buf = buf ! 0"

definition read_u16_be :: "byte list \<Rightarrow> 16 word" where
  "read_u16_be buf = push_bit 8 (ucast (buf ! 0)) OR ucast (buf ! 1)"

definition read_u16_le :: "byte list \<Rightarrow> 16 word" where
  "read_u16_le buf = push_bit 8 (ucast (buf ! 1)) OR ucast (buf ! 0)"

definition read_u24_be :: "byte list \<Rightarrow> 32 word" where
  "read_u24_be buf =
     push_bit 16 (ucast (buf ! 0)) OR push_bit 8 (ucast (buf ! 1)) OR ucast (buf ! 2)"

definition read_u24_le :: "byte list \<Rightarrow> 32 word" where
  "read_u24_le buf =
     push_bit 16 (ucast (buf ! 2)) OR push_bit 8 (ucast (buf ! 1)) OR ucast (buf ! 0)"

definition read_u32_be :: "byte list \<Rightarrow> 32 word" where
  "read_u32_be buf =
     push_bit 24 (ucast (buf ! 0)) OR push_bit 16 (ucast (buf ! 1)) OR
     push_bit 8 (ucast (buf ! 2)) OR ucast (buf ! 3)"

definition read_u32_le :: "byte list \<Rightarrow> 32 word" where
  "read_u32_le buf =
     push_bit 24 (ucast (buf ! 3)) OR push_bit 16 (ucast (buf ! 2)) OR
     push_bit 8 (ucast (buf ! 1)) OR ucast (buf ! 0)"

definition read_s8 :: "byte list \<Rightarrow> 8 word" where
  "read_s8 buf = buf ! 0"

definition read_s16_be :: "byte list \<Rightarrow> 16 word" where
  "read_s16_be buf = read_u16_be buf"

definition read_s16_le :: "byte list \<Rightarrow> 16 word" where
  "read_s16_le buf = read_u16_le buf"

text \<open>\<open>if (val & 0x800000) val |= 0xFF000000;\<close> followed by the cast to \<open>int32_t\<close>.\<close>

definition read_s24_be :: "byte list \<Rightarrow> 32 word" where
  "read_s24_be buf =
     (let val = read_u24_be buf
      in if val AND 0x800000 \<noteq> 0 then val OR 0xFF000000 else val)"

definition read_s24_le :: "byte list \<Rightarrow> 32 word" where
  "read_s24_le buf =
     (let val = read_u24_le buf
      in if val AND 0x800000 \<noteq> 0 then val OR 0xFF000000 else val)"

definition read_s32_be :: "byte list \<Rightarrow> 32 word" where
  "read_s32_be buf = read_u32_be buf"

definition read_s32_le :: "byte list \<Rightarrow> 32 word" where
  "read_s32_le buf = read_u32_le buf"

definition read_u64_be :: "byte list \<Rightarrow> 64 word" where
  "read_u64_be buf =
     push_bit 32 (ucast (read_u32_be buf)) OR ucast (read_u32_be (drop 4 buf))"

definition read_u64_le :: "byte list \<Rightarrow> 64 word" where
  "read_u64_le buf =
     push_bit 32 (ucast (read_u32_le (drop 4 buf))) OR ucast (read_u32_le buf)"

definition read_s64_be :: "byte list \<Rightarrow> 64 word" where
  "read_s64_be buf = read_u64_be buf"

definition read_s64_le :: "byte list \<Rightarrow> 64 word" where
  "read_s64_le buf = read_u64_le buf"

text \<open>\<open>extract_bits\<close>: \<open>(byte >> start) & ((1 << width) - 1)\<close>, computed in \<open>int\<close> after
  integer promotion and truncated to \<open>uint8_t\<close> on return.  For the shift counts a
  field can carry and C defines (\<open>width < 31\<close>) this is the low \<open>width\<close> bits of the
  shifted byte.\<close>

definition extract_bits :: "byte \<Rightarrow> nat \<Rightarrow> nat \<Rightarrow> byte" where
  "extract_bits b start width = take_bit width (drop_bit start b)"


section \<open>IEEE 754 arithmetic\<close>

text \<open>
  The C types \<open>float\<close> and \<open>double\<close> are IEEE 754 binary32 and binary64, evaluated in
  the default rounding mode (round to nearest, ties to even) without excess
  precision.  A value is a signed finite magnitude (an exact rational; the sign is
  kept so that \<open>-0.0\<close> differs from \<open>+0.0\<close>), a signed infinity, or a NaN.  Every
  arithmetic operation computes the exact rational result and rounds it to the
  format with \<open>fp_round\<close>, which also produces subnormals and overflows to infinity.
  Widening a \<open>float\<close> to \<open>double\<close> is exact and therefore the identity here.
\<close>

datatype fp = Finite bool rat | Infinity bool | NaN

record fmt =
  prec :: nat
  emax :: int
  ebits :: nat

definition binary32 :: fmt where
  "binary32 = \<lparr>prec = 24, emax = 127, ebits = 8\<rparr>"

definition binary64 :: fmt where
  "binary64 = \<lparr>prec = 53, emax = 1023, ebits = 11\<rparr>"

definition pow2 :: "int \<Rightarrow> rat" where
  "pow2 e = 2 powi e"

text \<open>\<open>ilog2 m\<close> is the exponent \<open>e\<close> with \<open>2^e \<le> m < 2^(e+1)\<close>, for \<open>m > 0\<close>.\<close>

definition ilog2 :: "rat \<Rightarrow> int" where
  "ilog2 m = (let (a, b) = quotient_of m; k = bitlen a - bitlen b
              in if pow2 k \<le> m then k else k - 1)"

text \<open>Round to the nearest integer, ties to the even one.\<close>

definition rne :: "rat \<Rightarrow> int" where
  "rne x = (let n = \<lfloor>x\<rfloor>; r = x - of_int n
            in if r < 1/2 then n else if 1/2 < r then n + 1
               else if even n then n else n + 1)"

text \<open>\<open>fp_round f s m\<close> rounds the magnitude \<open>m\<close> with sign \<open>s\<close>: \<open>e\<close> is the
  exponent of \<open>m\<close>, held at the smallest normal exponent for subnormals, \<open>q\<close> the
  spacing of the format at that exponent and \<open>n\<close> the rounded significand, at most
  \<open>2^prec\<close>.  The result overflows when it reaches \<open>2^(emax + 1)\<close>.\<close>

definition fp_round :: "fmt \<Rightarrow> bool \<Rightarrow> rat \<Rightarrow> fp" where
  "fp_round f s m =
     (if m = 0 then Finite s 0
      else let e = max (ilog2 m) (1 - emax f);
               q = pow2 (e - int (prec f) + 1);
               n = rne (m / q)
           in if e > emax f \<or> (e = emax f \<and> n \<ge> 2 ^ prec f) then Infinity s
              else Finite s (of_int n * q))"

definition sval :: "bool \<Rightarrow> rat \<Rightarrow> rat" where
  "sval s m = (if s then - m else m)"

definition fp_of_int :: "fmt \<Rightarrow> int \<Rightarrow> fp" where
  "fp_of_int f i = fp_round f (i < 0) (of_int \<bar>i\<bar>)"

definition fp_cvt :: "fmt \<Rightarrow> fp \<Rightarrow> fp" where
  "fp_cvt f x = (case x of Finite s m \<Rightarrow> fp_round f s m | Infinity s \<Rightarrow> Infinity s | NaN \<Rightarrow> NaN)"

fun fp_neg :: "fp \<Rightarrow> fp" where
  "fp_neg (Finite s m) = Finite (\<not> s) m"
| "fp_neg (Infinity s) = Infinity (\<not> s)"
| "fp_neg NaN = NaN"

fun fp_add :: "fmt \<Rightarrow> fp \<Rightarrow> fp \<Rightarrow> fp" where
  "fp_add f (Finite s m) (Finite t n) =
     (let v = sval s m + sval t n
      in if v = 0 then Finite (s \<and> t) 0 else fp_round f (v < 0) \<bar>v\<bar>)"
| "fp_add f (Finite s m) (Infinity t) = Infinity t"
| "fp_add f (Infinity s) (Finite t n) = Infinity s"
| "fp_add f (Infinity s) (Infinity t) = (if s = t then Infinity s else NaN)"
| "fp_add f NaN y = NaN"
| "fp_add f x NaN = NaN"

definition fp_sub :: "fmt \<Rightarrow> fp \<Rightarrow> fp \<Rightarrow> fp" where
  "fp_sub f x y = fp_add f x (fp_neg y)"

fun fp_mul :: "fmt \<Rightarrow> fp \<Rightarrow> fp \<Rightarrow> fp" where
  "fp_mul f (Finite s m) (Finite t n) = fp_round f (s \<noteq> t) (m * n)"
| "fp_mul f (Finite s m) (Infinity t) = (if m = 0 then NaN else Infinity (s \<noteq> t))"
| "fp_mul f (Infinity s) (Finite t n) = (if n = 0 then NaN else Infinity (s \<noteq> t))"
| "fp_mul f (Infinity s) (Infinity t) = Infinity (s \<noteq> t)"
| "fp_mul f NaN y = NaN"
| "fp_mul f x NaN = NaN"

fun fp_div :: "fmt \<Rightarrow> fp \<Rightarrow> fp \<Rightarrow> fp" where
  "fp_div f (Finite s m) (Finite t n) =
     (if n = 0 then (if m = 0 then NaN else Infinity (s \<noteq> t))
      else fp_round f (s \<noteq> t) (m / n))"
| "fp_div f (Finite s m) (Infinity t) = Finite (s \<noteq> t) 0"
| "fp_div f (Infinity s) (Finite t n) = Infinity (s \<noteq> t)"
| "fp_div f (Infinity s) (Infinity t) = NaN"
| "fp_div f NaN y = NaN"
| "fp_div f x NaN = NaN"

text \<open>The comparisons the code makes: \<open>x == y\<close>, \<open>x >= 0\<close> and \<open>x < 0\<close>.\<close>

fun fp_eq :: "fp \<Rightarrow> fp \<Rightarrow> bool" where
  "fp_eq (Finite s m) (Finite t n) = (sval s m = sval t n)"
| "fp_eq (Infinity s) (Infinity t) = (s = t)"
| "fp_eq _ _ = False"

fun fp_ge_zero :: "fp \<Rightarrow> bool" where
  "fp_ge_zero (Finite s m) = (if s then m = 0 else True)"
| "fp_ge_zero (Infinity s) = (if s then False else True)"
| "fp_ge_zero NaN = False"

fun fp_lt_zero :: "fp \<Rightarrow> bool" where
  "fp_lt_zero (Finite s m) = (if s then m \<noteq> 0 else False)"
| "fp_lt_zero (Infinity s) = s"
| "fp_lt_zero NaN = False"

text \<open>Conversion to a C integer type truncates towards zero; it is undefined
  (\<open>None\<close>) for a NaN, an infinity, or a value outside the range of the type.\<close>

fun fp_trunc :: "fp \<Rightarrow> int option" where
  "fp_trunc (Finite s m) = Some (if s then - \<lfloor>m\<rfloor> else \<lfloor>m\<rfloor>)"
| "fp_trunc _ = None"

definition fp_to_sint :: "nat \<Rightarrow> fp \<Rightarrow> int option" where
  "fp_to_sint w x =
     (case fp_trunc x of
        None \<Rightarrow> None
      | Some i \<Rightarrow> if - (2 ^ (w - 1)) \<le> i \<and> i < 2 ^ (w - 1) then Some i else None)"

text \<open>The value of a bit pattern, and the bit pattern of a value.  The pattern is
  given by its unsigned value.  A NaN is written as the quiet NaN with an empty payload
  and a clear sign bit.\<close>

definition fp_of_bits :: "fmt \<Rightarrow> int \<Rightarrow> fp" where
  "fp_of_bits f n =
     (let p = prec f - 1;
          frac = n mod 2 ^ p;
          ex = (n div 2 ^ p) mod 2 ^ ebits f;
          s = ((n div 2 ^ (p + ebits f)) mod 2 = 1)
      in if ex = 0 then Finite s (of_int frac * pow2 (1 - emax f - int p))
         else if ex = 2 ^ ebits f - 1 then (if frac = 0 then Infinity s else NaN)
         else Finite s (of_int (2 ^ p + frac) * pow2 (ex - emax f - int p)))"

definition bits_of_fp :: "fmt \<Rightarrow> fp \<Rightarrow> int" where
  "bits_of_fp f x =
     (let p = prec f - 1;
          sign = (\<lambda>s. if s then 2 ^ (p + ebits f) else 0)
      in case x of
           NaN \<Rightarrow> (2 ^ ebits f - 1) * 2 ^ p + 2 ^ (p - 1)
         | Infinity s \<Rightarrow> sign s + (2 ^ ebits f - 1) * 2 ^ p
         | Finite s m \<Rightarrow>
             if m = 0 then sign s
             else if ilog2 m < 1 - emax f
               then sign s + \<lfloor>m / pow2 (1 - emax f - int p)\<rfloor>
             else sign s + (ilog2 m + emax f) * 2 ^ p
                  + (\<lfloor>m / pow2 (ilog2 m - int p)\<rfloor> - 2 ^ p))"


section \<open>Floating-point readers (schema\_interpreter.h, lines 284--340)\<close>

definition read_f32_be :: "byte list \<Rightarrow> fp" where
  "read_f32_be buf = fp_of_bits binary32 (uint (read_u32_be buf))"

definition read_f32_le :: "byte list \<Rightarrow> fp" where
  "read_f32_le buf = fp_of_bits binary32 (uint (read_u32_le buf))"

definition read_f64_be :: "byte list \<Rightarrow> fp" where
  "read_f64_be buf = fp_of_bits binary64 (uint (read_u64_be buf))"

definition read_f64_le :: "byte list \<Rightarrow> fp" where
  "read_f64_le buf = fp_of_bits binary64 (uint (read_u64_le buf))"

text \<open>\<open>read_f16_be\<close> computes in \<open>float\<close>.  The two scaling loops multiply or divide
  by \<open>2.0f\<close> one step at a time; the literal \<open>6.103515625e-05f\<close> is \<open>2^-14\<close>.\<close>

definition f16_sign :: "16 word \<Rightarrow> 32 word" where
  "f16_sign h = (ucast (drop_bit 15 h) :: 32 word) AND 1"

definition f16_exp :: "16 word \<Rightarrow> 32 word" where
  "f16_exp h = (ucast (drop_bit 10 h) :: 32 word) AND 0x1F"

definition f16_frac :: "16 word \<Rightarrow> 32 word" where
  "f16_frac h = (ucast h :: 32 word) AND 0x3FF"

definition read_f16_be :: "byte list \<Rightarrow> fp" where
  "read_f16_be buf =
     (let h = read_u16_be buf;
          sign = f16_sign h;
          exp = f16_exp h;
          frac = f16_frac h
      in if exp = 0 then
           (if frac = 0 then (if sign \<noteq> 0 then Finite True 0 else Finite False 0)
            else let val = fp_div binary32 (fp_of_int binary32 (uint frac)) (Finite False 1024);
                     val = fp_mul binary32 val (Finite False (1 / 16384))
                 in if sign \<noteq> 0 then fp_neg val else val)
         else if exp = 31 then
           (if frac = 0
              then (if sign \<noteq> 0 then fp_div binary32 (Finite True 1) (Finite False 0)
                    else fp_div binary32 (Finite False 1) (Finite False 0))
            else fp_div binary32 (Finite False 0) (Finite False 0))
         else
           (let val = fp_add binary32 (Finite False 1)
                        (fp_div binary32 (fp_of_int binary32 (uint frac)) (Finite False 1024));
                actual_exp = uint exp - 15;
                val = (if actual_exp > 0
                         then ((\<lambda>v. fp_mul binary32 v (Finite False 2)) ^^ nat actual_exp) val
                       else ((\<lambda>v. fp_div binary32 v (Finite False 2)) ^^ nat (- actual_exp)) val)
            in if sign \<noteq> 0 then fp_neg val else val))"

definition read_f16_le :: "byte list \<Rightarrow> fp" where
  "read_f16_le buf = read_f16_be [buf ! 1, buf ! 0]"


section \<open>Schema data model (schema\_interpreter.h, lines 40--200)\<close>

text \<open>
  C arrays paired with a count (\<open>fields\<close>/\<open>field_count\<close>, \<open>lookup\<close>/\<open>lookup_count\<close>,
  \<open>cases\<close>/\<open>case_count\<close>, \<open>vars\<close>/\<open>count\<close>) are lists whose length is the count.
  A \<open>char[SCHEMA_MAX_NAME_LEN]\<close> holding a NUL-terminated string is a \<open>string\<close>.
  \<open>uint8_t\<close> members are natural numbers, \<open>int\<close> and \<open>int64_t\<close> members are
  integers, \<open>double\<close> members are \<open>fp\<close> values.  The union \<open>field_value_t\<close> is a
  datatype with one constructor per member that the decoder writes.
\<close>

definition SCHEMA_MAX_FIELDS :: nat where "SCHEMA_MAX_FIELDS = 32"
definition SCHEMA_MAX_PAYLOAD :: nat where "SCHEMA_MAX_PAYLOAD = 256"
definition SCHEMA_MAX_NAME_LEN :: nat where "SCHEMA_MAX_NAME_LEN = 32"

datatype field_type_t =
    FIELD_TYPE_U8 | FIELD_TYPE_U16 | FIELD_TYPE_U24 | FIELD_TYPE_U32 | FIELD_TYPE_U64
  | FIELD_TYPE_S8 | FIELD_TYPE_S16 | FIELD_TYPE_S24 | FIELD_TYPE_S32 | FIELD_TYPE_S64
  | FIELD_TYPE_F16 | FIELD_TYPE_F32 | FIELD_TYPE_F64
  | FIELD_TYPE_BOOL | FIELD_TYPE_BITS | FIELD_TYPE_SKIP
  | FIELD_TYPE_ASCII | FIELD_TYPE_HEX | FIELD_TYPE_BASE64 | FIELD_TYPE_BYTES
  | FIELD_TYPE_OBJECT | FIELD_TYPE_MATCH | FIELD_TYPE_ENUM | FIELD_TYPE_BYTE_GROUP
  | FIELD_TYPE_UDEC | FIELD_TYPE_SDEC | FIELD_TYPE_UNKNOWN

datatype endian_t = ENDIAN_DEFAULT | ENDIAN_BIG | ENDIAN_LITTLE

datatype field_value_t =
    V_i64 int | V_f64 fp | V_b bool | V_str string | V_bytes "byte list"

record lookup_entry_t =
  lk_key :: int
  lk_value :: string

record case_def_t =
  match_value :: int
  match_list :: "int list"
  range_min :: int
  range_max :: int
  is_default :: bool
  field_start :: int
  field_count :: int

record field_def_t =
  f_name :: string
  f_type :: field_type_t
  f_size :: nat
  f_bit_start :: nat
  f_bit_width :: nat
  f_consume :: bool
  f_endian :: endian_t
  f_mult :: fp
  f_div :: fp
  f_add :: fp
  f_has_mult :: bool
  f_has_div :: bool
  f_has_add :: bool
  f_var_name :: string
  f_lookup :: "lookup_entry_t list"
  f_match_var :: string
  f_cases :: "case_def_t list"

record decoded_field_t =
  d_name :: string
  d_value :: field_value_t
  d_type :: field_type_t

record schema_t =
  s_version :: int
  s_endian :: endian_t
  s_fields :: "field_def_t list"

text \<open>\<open>r_fields\<close> is \<open>fields[0 .. field_count)\<close> of \<open>decode_result_t\<close>.\<close>

record decode_result_t =
  r_fields :: "decoded_field_t list"
  r_bytes_consumed :: int
  r_error_code :: int

type_synonym var_context_t = "(string \<times> int) list"

definition SCHEMA_OK :: int where "SCHEMA_OK = 0"
definition SCHEMA_ERR_PARSE :: int where "SCHEMA_ERR_PARSE = - 1"
definition SCHEMA_ERR_BUFFER :: int where "SCHEMA_ERR_BUFFER = - 2"
definition SCHEMA_ERR_OVERFLOW :: int where "SCHEMA_ERR_OVERFLOW = - 3"
definition SCHEMA_ERR_TYPE :: int where "SCHEMA_ERR_TYPE = - 4"
definition SCHEMA_ERR_MATCH :: int where "SCHEMA_ERR_MATCH = - 5"
definition SCHEMA_ERR_UNSUPPORTED :: int where "SCHEMA_ERR_UNSUPPORTED = - 6"
definition SCHEMA_ERR_MISSING :: int where "SCHEMA_ERR_MISSING = - 7"

text \<open>The cast \<open>(int)x\<close> of an \<open>int64_t\<close>: the low 32 bits, read as two's complement.\<close>

definition to_int32 :: "int \<Rightarrow> int" where
  "to_int32 x = sint (word_of_int x :: 32 word)"


section \<open>Variable context (lines 469--490)\<close>

text \<open>\<open>var_assign\<close> is the first loop of \<open>var_set\<close>: it overwrites the first variable
  of that name, if there is one.\<close>

fun var_assign :: "var_context_t \<Rightarrow> string \<Rightarrow> int \<Rightarrow> var_context_t option" where
  "var_assign [] name v = None"
| "var_assign ((n, x) # vs) name v =
     (if n = name then Some ((n, v) # vs)
      else map_option (\<lambda>r. (n, x) # r) (var_assign vs name v))"

definition var_set :: "var_context_t \<Rightarrow> string \<Rightarrow> int \<Rightarrow> var_context_t" where
  "var_set ctx name v =
     (case var_assign ctx name v of
        Some ctx' \<Rightarrow> ctx'
      | None \<Rightarrow>
          if length ctx < SCHEMA_MAX_FIELDS
            then ctx @ [(take (SCHEMA_MAX_NAME_LEN - 1) name, v)]
          else ctx)"

fun var_get :: "var_context_t \<Rightarrow> string \<Rightarrow> int" where
  "var_get [] name = 0"
| "var_get ((n, x) # vs) name = (if n = name then x else var_get vs name)"


section \<open>Decoding a single field (lines 511--810)\<close>

text \<open>
  \<open>decode_field\<close> returns \<open>None\<close> where the C code has undefined behaviour (a read past
  the buffer, a shift by 32 or more).  Otherwise it returns either the error code, or
  the new cursor, the decoded field if \<open>out->valid\<close> was set, and the new variable
  context.  \<open>len\<close> is the length of the buffer.  On an error return the C code has
  changed neither \<open>*pos\<close> nor the variables.
\<close>

datatype field_result =
    FieldError int
  | FieldOk nat "decoded_field_t option" var_context_t

definition effective_endian :: "field_def_t \<Rightarrow> endian_t \<Rightarrow> endian_t" where
  "effective_endian fld default_endian =
     (if f_endian fld \<noteq> ENDIAN_DEFAULT then f_endian fld else default_endian)"

definition fp_zero :: fp where
  "fp_zero = Finite False 0"

text \<open>The literal \<open>0.1\<close> is the double nearest to one tenth.\<close>

definition fp_tenth :: fp where
  "fp_tenth = fp_round binary64 False (1 / 10)"

text \<open>\<open>if (has_mult) v *= mult; if (has_div && div != 0) v /= div; if (has_add) v += add;\<close>\<close>

definition apply_modifiers :: "field_def_t \<Rightarrow> fp \<Rightarrow> fp" where
  "apply_modifiers fld v0 =
     (let v1 = (if f_has_mult fld then fp_mul binary64 v0 (f_mult fld) else v0);
          v2 = (if f_has_div fld \<and> \<not> fp_eq (f_div fld) fp_zero
                  then fp_div binary64 v1 (f_div fld) else v1)
      in if f_has_add fld then fp_add binary64 v2 (f_add fld) else v2)"

text \<open>The nibble-decimal cases divide without the test for zero.\<close>

definition apply_modifiers_dec :: "field_def_t \<Rightarrow> fp \<Rightarrow> fp" where
  "apply_modifiers_dec fld v0 =
     (let v1 = (if f_has_mult fld then fp_mul binary64 v0 (f_mult fld) else v0);
          v2 = (if f_has_div fld then fp_div binary64 v1 (f_div fld) else v1)
      in if f_has_add fld then fp_add binary64 v2 (f_add fld) else v2)"

fun lookup_find :: "lookup_entry_t list \<Rightarrow> int \<Rightarrow> string option" where
  "lookup_find [] k = None"
| "lookup_find (e # es) k = (if lk_key e = k then Some (lk_value e) else lookup_find es k)"

definition mk_field :: "field_def_t \<Rightarrow> field_value_t \<Rightarrow> decoded_field_t" where
  "mk_field fld v =
     \<lparr>d_name = take (SCHEMA_MAX_NAME_LEN - 1) (f_name fld), d_value = v, d_type = f_type fld\<rparr>"

definition bind_var :: "field_def_t \<Rightarrow> var_context_t \<Rightarrow> int \<Rightarrow> var_context_t" where
  "bind_var fld vars v =
     (if f_var_name fld \<noteq> [] then var_set vars (f_var_name fld) v else vars)"

text \<open>The code after the \<open>switch\<close>: store the variable, apply the modifiers, apply the
  lookup table.\<close>

definition finish_field :: "field_def_t \<Rightarrow> nat \<Rightarrow> var_context_t \<Rightarrow> int \<Rightarrow> field_result" where
  "finish_field fld pos vars raw_value =
     (let vars' = bind_var fld vars raw_value;
          final_value = apply_modifiers fld (fp_of_int binary64 raw_value)
      in if f_lookup fld \<noteq> [] then
           (case lookup_find (f_lookup fld) (to_int32 raw_value) of
              Some str \<Rightarrow>
                FieldOk pos (Some (mk_field fld (V_str (take (SCHEMA_MAX_NAME_LEN - 1) str)))) vars'
            | None \<Rightarrow> FieldOk pos (Some (mk_field fld (V_i64 raw_value))) vars')
         else FieldOk pos (Some (mk_field fld (V_f64 final_value))) vars')"

text \<open>Strings written into \<open>value.str\<close>.\<close>

definition byte_char :: "byte \<Rightarrow> char" where
  "byte_char b = char_of (unat b)"

definition c_string :: "byte list \<Rightarrow> string" where
  "c_string bs = map byte_char (takeWhile (\<lambda>b. b \<noteq> 0) bs)"

definition hex_chars :: string where
  "hex_chars = ''0123456789ABCDEF''"

definition hex_pair :: "byte \<Rightarrow> string" where
  "hex_pair b = [hex_chars ! unat (drop_bit 4 b AND 0x0F), hex_chars ! unat (b AND 0x0F)]"

definition b64 :: string where
  "b64 = ''ABCDEFGHIJKLMNOPQRSTUVWXYZabcdefghijklmnopqrstuvwxyz0123456789+/''"

function b64_loop :: "byte list \<Rightarrow> nat \<Rightarrow> nat \<Rightarrow> string \<Rightarrow> string" where
  "b64_loop p in_len b out =
     (if b < in_len \<and> length out < SCHEMA_MAX_NAME_LEN - 4 then
        (let t0 = push_bit 16 (ucast (p ! b) :: 32 word);
             t1 = (if b + 1 < in_len then t0 OR push_bit 8 (ucast (p ! (b + 1))) else t0);
             triple = (if b + 2 < in_len then t1 OR ucast (p ! (b + 2)) else t1)
         in b64_loop p in_len (b + 3)
              (out @ [b64 ! unat (drop_bit 18 triple AND 0x3F),
                      b64 ! unat (drop_bit 12 triple AND 0x3F),
                      (if b + 1 < in_len then b64 ! unat (drop_bit 6 triple AND 0x3F) else CHR ''=''),
                      (if b + 2 < in_len then b64 ! unat (triple AND 0x3F) else CHR ''='')]))
      else out)"
  by pat_completeness auto
termination
  by (relation "measure (\<lambda>(p, in_len, b, out). in_len - b)") auto

text \<open>\<open>snprintf(..., "unknown(%d)", (int)raw_value)\<close>.\<close>

definition digit_char :: "nat \<Rightarrow> char" where
  "digit_char d = ''0123456789'' ! d"

function dec_of_nat :: "nat \<Rightarrow> string" where
  "dec_of_nat n = (if n < 10 then [digit_char n] else dec_of_nat (n div 10) @ [digit_char (n mod 10)])"
  by pat_completeness auto
termination
  by (relation "measure id") auto

definition dec_of_int :: "int \<Rightarrow> string" where
  "dec_of_int i = (if i < 0 then CHR ''-'' # dec_of_nat (nat (- i)) else dec_of_nat (nat i))"

definition unknown_string :: "int \<Rightarrow> string" where
  "unknown_string raw_value =
     take (SCHEMA_MAX_NAME_LEN - 1) (''unknown('' @ dec_of_int (to_int32 raw_value) @ '')'')"

definition decode_field ::
  "field_def_t \<Rightarrow> byte list \<Rightarrow> nat \<Rightarrow> var_context_t \<Rightarrow> endian_t \<Rightarrow> field_result option"
where
  "decode_field fld buf pos vars default_endian =
     (let len = length buf;
          endian = effective_endian fld default_endian;
          p = drop pos buf;
          size = f_size fld
      in case f_type fld of
        FIELD_TYPE_U8 \<Rightarrow>
          if pos + 1 > len then Some (FieldError SCHEMA_ERR_BUFFER)
          else Some (finish_field fld (pos + 1) vars (uint (read_u8 p)))
      | FIELD_TYPE_U16 \<Rightarrow>
          if pos + 2 > len then Some (FieldError SCHEMA_ERR_BUFFER)
          else Some (finish_field fld (pos + 2) vars
                 (uint (if endian = ENDIAN_BIG then read_u16_be p else read_u16_le p)))
      | FIELD_TYPE_U24 \<Rightarrow>
          if pos + 3 > len then Some (FieldError SCHEMA_ERR_BUFFER)
          else Some (finish_field fld (pos + 3) vars
                 (uint (if endian = ENDIAN_BIG then read_u24_be p else read_u24_le p)))
      | FIELD_TYPE_U32 \<Rightarrow>
          if pos + 4 > len then Some (FieldError SCHEMA_ERR_BUFFER)
          else Some (finish_field fld (pos + 4) vars
                 (uint (if endian = ENDIAN_BIG then read_u32_be p else read_u32_le p)))
      | FIELD_TYPE_S8 \<Rightarrow>
          if pos + 1 > len then Some (FieldError SCHEMA_ERR_BUFFER)
          else Some (finish_field fld (pos + 1) vars (sint (read_s8 p)))
      | FIELD_TYPE_S16 \<Rightarrow>
          if pos + 2 > len then Some (FieldError SCHEMA_ERR_BUFFER)
          else Some (finish_field fld (pos + 2) vars
                 (sint (if endian = ENDIAN_BIG then read_s16_be p else read_s16_le p)))
      | FIELD_TYPE_S24 \<Rightarrow>
          if pos + 3 > len then Some (FieldError SCHEMA_ERR_BUFFER)
          else Some (finish_field fld (pos + 3) vars
                 (sint (if endian = ENDIAN_BIG then read_s24_be p else read_s24_le p)))
      | FIELD_TYPE_S32 \<Rightarrow>
          if pos + 4 > len then Some (FieldError SCHEMA_ERR_BUFFER)
          else Some (finish_field fld (pos + 4) vars
                 (sint (if endian = ENDIAN_BIG then read_s32_be p else read_s32_le p)))
      | FIELD_TYPE_U64 \<Rightarrow>
          if pos + 8 > len then Some (FieldError SCHEMA_ERR_BUFFER)
          else
            (let u64 = (if endian = ENDIAN_BIG then read_u64_be p else read_u64_le p);
                 final_value = apply_modifiers fld (fp_of_int binary64 (uint u64))
             in Some (FieldOk (pos + 8) (Some (mk_field fld (V_f64 final_value)))
                        (bind_var fld vars (sint u64))))
      | FIELD_TYPE_S64 \<Rightarrow>
          if pos + 8 > len then Some (FieldError SCHEMA_ERR_BUFFER)
          else Some (finish_field fld (pos + 8) vars
                 (sint (if endian = ENDIAN_BIG then read_s64_be p else read_s64_le p)))
      | FIELD_TYPE_F16 \<Rightarrow>
          if pos + 2 > len then Some (FieldError SCHEMA_ERR_BUFFER)
          else Some (FieldOk (pos + 2)
                 (Some (mk_field fld
                    (V_f64 (if endian = ENDIAN_BIG then read_f16_be p else read_f16_le p))))
                 vars)
      | FIELD_TYPE_F32 \<Rightarrow>
          if pos + 4 > len then Some (FieldError SCHEMA_ERR_BUFFER)
          else Some (FieldOk (pos + 4)
                 (Some (mk_field fld
                    (V_f64 (if endian = ENDIAN_BIG then read_f32_be p else read_f32_le p))))
                 vars)
      | FIELD_TYPE_F64 \<Rightarrow>
          if pos + 8 > len then Some (FieldError SCHEMA_ERR_BUFFER)
          else Some (FieldOk (pos + 8)
                 (Some (mk_field fld
                    (V_f64 (if endian = ENDIAN_BIG then read_f64_be p else read_f64_le p))))
                 vars)
      | FIELD_TYPE_BOOL \<Rightarrow>
          if pos + 1 > len then Some (FieldError SCHEMA_ERR_BUFFER)
          else if f_bit_start fld \<ge> 32 then None
          else
            (let b = bit (buf ! pos) (f_bit_start fld)
             in Some (FieldOk (if f_consume fld then pos + 1 else pos)
                        (Some (mk_field fld (V_b b)))
                        (bind_var fld vars (if b then 1 else 0))))
      | FIELD_TYPE_BITS \<Rightarrow>
          if pos \<ge> len then Some (FieldError SCHEMA_ERR_BUFFER)
          else if f_bit_start fld \<ge> 32 \<or> f_bit_width fld \<ge> 31 then None
          else Some (finish_field fld (if f_consume fld then pos + 1 else pos) vars
                 (uint (extract_bits (buf ! pos) (f_bit_start fld) (f_bit_width fld))))
      | FIELD_TYPE_SKIP \<Rightarrow>
          Some (FieldOk (pos + (if size \<noteq> 0 then size else 1)) None vars)
      | FIELD_TYPE_ASCII \<Rightarrow>
          if pos + size > len then Some (FieldError SCHEMA_ERR_BUFFER)
          else
            (let n = (if size < SCHEMA_MAX_NAME_LEN then size else SCHEMA_MAX_NAME_LEN - 1)
             in Some (FieldOk (pos + size)
                        (Some (mk_field fld (V_str (c_string (take n p))))) vars))
      | FIELD_TYPE_HEX \<Rightarrow>
          if pos + size > len then Some (FieldError SCHEMA_ERR_BUFFER)
          else
            (let hex_len = (if size < SCHEMA_MAX_NAME_LEN div 2 then size
                            else SCHEMA_MAX_NAME_LEN div 2 - 1)
             in Some (FieldOk (pos + size)
                        (Some (mk_field fld (V_str (concat (map hex_pair (take hex_len p))))))
                        vars))
      | FIELD_TYPE_BASE64 \<Rightarrow>
          if pos + size > len then Some (FieldError SCHEMA_ERR_BUFFER)
          else Some (FieldOk (pos + size)
                 (Some (mk_field fld (V_str (b64_loop p size 0 [])))) vars)
      | FIELD_TYPE_BYTES \<Rightarrow>
          if pos + size > len then Some (FieldError SCHEMA_ERR_BUFFER)
          else
            (let copy_len = (if size < SCHEMA_MAX_NAME_LEN then size else SCHEMA_MAX_NAME_LEN)
             in Some (FieldOk (pos + size)
                        (Some (mk_field fld (V_bytes (take copy_len p)))) vars))
      | FIELD_TYPE_ENUM \<Rightarrow>
          if pos + size > len then Some (FieldError SCHEMA_ERR_BUFFER)
          else
            (let esize = (if size \<noteq> 0 then size else 1)
             in if esize \<noteq> 2 \<and> pos \<ge> len then None
                else
                  (let raw_value =
                         (if esize = 1 then uint (read_u8 p)
                          else if esize = 2
                            then uint (if endian = ENDIAN_BIG then read_u16_be p else read_u16_le p)
                          else uint (read_u8 p));
                       pos' = pos + esize
                   in if f_lookup fld \<noteq> [] then
                        (case lookup_find (f_lookup fld) (to_int32 raw_value) of
                           Some str \<Rightarrow>
                             Some (FieldOk pos'
                               (Some (mk_field fld (V_str (take (SCHEMA_MAX_NAME_LEN - 1) str))))
                               (bind_var fld vars raw_value))
                         | None \<Rightarrow>
                             Some (FieldOk pos'
                               (Some (mk_field fld (V_str (unknown_string raw_value))))
                               (bind_var fld vars raw_value)))
                      else Some (finish_field fld pos' vars raw_value)))
      | FIELD_TYPE_UDEC \<Rightarrow>
          if pos + 1 > len then Some (FieldError SCHEMA_ERR_BUFFER)
          else
            (let byte = buf ! pos;
                 final_value =
                   fp_add binary64 (fp_of_int binary64 (uint (drop_bit 4 byte)))
                     (fp_mul binary64 (fp_of_int binary64 (uint (byte AND 0x0F))) fp_tenth)
             in Some (FieldOk (pos + 1)
                        (Some (mk_field fld (V_f64 (apply_modifiers_dec fld final_value)))) vars))
      | FIELD_TYPE_SDEC \<Rightarrow>
          if pos + 1 > len then Some (FieldError SCHEMA_ERR_BUFFER)
          else
            (let byte = buf ! pos;
                 w0 = uint (drop_bit 4 byte);
                 whole = (if w0 \<ge> 8 then w0 - 16 else w0);
                 final_value =
                   fp_add binary64 (fp_of_int binary64 whole)
                     (fp_mul binary64 (fp_of_int binary64 (uint (byte AND 0x0F))) fp_tenth)
             in Some (FieldOk (pos + 1)
                        (Some (mk_field fld (V_f64 (apply_modifiers_dec fld final_value)))) vars))
      | _ \<Rightarrow> Some (FieldError SCHEMA_ERR_TYPE))"


section \<open>The decoder (lines 816--904)\<close>

text \<open>
  The decoder's state is the cursor \<open>pos\<close>, the variable context and the fields
  counted so far (\<open>result->fields[0 .. field_count)\<close>).  Every call of \<open>decode_field\<close>
  writes to the slot \<open>result->fields[result->field_count]\<close> first, so a call with
  \<open>field_count = SCHEMA_MAX_FIELDS\<close> writes past the array: undefined behaviour.
  A run either goes on (\<open>Continue\<close>), returns early with an error code (\<open>Abort\<close>), or
  is undefined (\<open>Undefined\<close>).
\<close>

record dec_state =
  st_pos :: nat
  st_vars :: var_context_t
  st_out :: "decoded_field_t list"

datatype 'a outcome = Continue 'a | Abort int 'a | Undefined

text \<open>One call of \<open>decode_field\<close> on the next free slot, followed by the test that
  decides whether the slot is counted: \<open>emit\<close> is the part of that test that looks at
  the field definition.\<close>

definition decode_slot ::
  "bool \<Rightarrow> schema_t \<Rightarrow> byte list \<Rightarrow> field_def_t \<Rightarrow> dec_state \<Rightarrow> dec_state outcome"
where
  "decode_slot emit s buf fld st =
     (if length (st_out st) \<ge> SCHEMA_MAX_FIELDS then Undefined
      else case decode_field fld buf (st_pos st) (st_vars st) (s_endian s) of
             None \<Rightarrow> Undefined
           | Some (FieldError rc) \<Rightarrow> Abort rc st
           | Some (FieldOk pos' out vars') \<Rightarrow>
               Continue \<lparr>st_pos = pos', st_vars = vars',
                         st_out = (case out of
                                     Some d \<Rightarrow> if emit then st_out st @ [d] else st_out st
                                   | None \<Rightarrow> st_out st)\<rparr>)"

text \<open>The test of the regular path: \<open>field->name[0] && field->name[0] != '_'\<close>.\<close>

definition regular_emit :: "field_def_t \<Rightarrow> bool" where
  "regular_emit fld = (f_name fld \<noteq> [] \<and> hd (f_name fld) \<noteq> CHR ''_'')"

text \<open>The scan of \<open>match_list\<close>: entries up to the first \<open>-1\<close>, at most eight.\<close>

definition in_match_list :: "int list \<Rightarrow> int \<Rightarrow> bool" where
  "in_match_list ml v = (v \<in> set (takeWhile (\<lambda>x. x \<noteq> - 1) (take 8 ml)))"

definition case_matches :: "case_def_t \<Rightarrow> int \<Rightarrow> bool" where
  "case_matches cs match_val =
     (if is_default cs then True
      else if match_value cs = to_int32 match_val then True
      else if range_min cs \<noteq> range_max cs
        then (match_val \<ge> range_min cs \<and> match_val \<le> range_max cs)
      else in_match_list (match_list cs) (to_int32 match_val))"

fun find_case :: "case_def_t list \<Rightarrow> int \<Rightarrow> case_def_t option" where
  "find_case [] match_val = None"
| "find_case (cs # rest) match_val =
     (if case_matches cs match_val then Some cs else find_case rest match_val)"

text \<open>The loop over the fields of the selected case: \<open>f\<close> is the loop counter and
  \<open>n\<close> the number of iterations left.  A negative \<open>field_idx\<close> indexes before the
  array.\<close>

fun decode_case_fields ::
  "schema_t \<Rightarrow> byte list \<Rightarrow> int \<Rightarrow> nat \<Rightarrow> nat \<Rightarrow> dec_state \<Rightarrow> dec_state outcome"
where
  "decode_case_fields s buf start f 0 st = Continue st"
| "decode_case_fields s buf start f (Suc n) st =
     (let field_idx = start + int f
      in if field_idx \<ge> int (length (s_fields s)) then Continue st
         else if field_idx < 0 then Undefined
         else case decode_slot True s buf (s_fields s ! nat field_idx) st of
                Continue st' \<Rightarrow> decode_case_fields s buf start (Suc f) n st'
              | Abort rc st' \<Rightarrow> Abort rc st'
              | Undefined \<Rightarrow> Undefined)"

definition strip_dollar :: "string \<Rightarrow> string" where
  "strip_dollar var_name =
     (if var_name \<noteq> [] \<and> hd var_name = CHR ''$'' then tl var_name else var_name)"

text \<open>One iteration of the main loop.\<close>

definition decode_step ::
  "schema_t \<Rightarrow> byte list \<Rightarrow> field_def_t \<Rightarrow> dec_state \<Rightarrow> dec_state outcome"
where
  "decode_step s buf fld st =
     (if f_type fld = FIELD_TYPE_MATCH then
        (let match_val = var_get (st_vars st) (strip_dollar (f_match_var fld))
         in case find_case (f_cases fld) match_val of
              None \<Rightarrow> Continue st
            | Some cs \<Rightarrow>
                decode_case_fields s buf (field_start cs) 0 (nat (field_count cs)) st)
      else decode_slot (regular_emit fld) s buf fld st)"

fun decode_fields ::
  "schema_t \<Rightarrow> byte list \<Rightarrow> field_def_t list \<Rightarrow> dec_state \<Rightarrow> dec_state outcome"
where
  "decode_fields s buf [] st = Continue st"
| "decode_fields s buf (fld # rest) st =
     (case decode_step s buf fld st of
        Continue st' \<Rightarrow> decode_fields s buf rest st'
      | Abort rc st' \<Rightarrow> Abort rc st'
      | Undefined \<Rightarrow> Undefined)"

text \<open>\<open>schema_decode\<close> returns the code it stores in \<open>result->error_code\<close>, so the
  model returns the result alone.  \<open>memset\<close> leaves \<open>bytes_consumed\<close> at 0; only the
  successful exit assigns it.\<close>

definition schema_decode :: "schema_t \<Rightarrow> byte list \<Rightarrow> decode_result_t option" where
  "schema_decode s buf =
     (case decode_fields s buf (s_fields s) \<lparr>st_pos = 0, st_vars = [], st_out = []\<rparr> of
        Continue st \<Rightarrow>
          Some \<lparr>r_fields = st_out st, r_bytes_consumed = int (st_pos st),
                r_error_code = SCHEMA_OK\<rparr>
      | Abort rc st \<Rightarrow>
          Some \<lparr>r_fields = st_out st, r_bytes_consumed = 0, r_error_code = rc\<rparr>
      | Undefined \<Rightarrow> None)"

text \<open>The builder functions used by the scenarios (lines 1137--1336).\<close>

definition field_blank :: field_def_t where
  "field_blank =
     \<lparr>f_name = [], f_type = FIELD_TYPE_U8, f_size = 0, f_bit_start = 0, f_bit_width = 0,
      f_consume = False, f_endian = ENDIAN_DEFAULT, f_mult = fp_zero, f_div = fp_zero,
      f_add = fp_zero, f_has_mult = False, f_has_div = False, f_has_add = False,
      f_var_name = [], f_lookup = [], f_match_var = [], f_cases = []\<rparr>"

definition field_of :: "string \<Rightarrow> field_type_t \<Rightarrow> nat \<Rightarrow> endian_t \<Rightarrow> field_def_t" where
  "field_of name t sz e =
     field_blank\<lparr>f_name := take (SCHEMA_MAX_NAME_LEN - 1) name, f_type := t, f_size := sz,
                 f_endian := e\<rparr>"

definition field_u8 :: "string \<Rightarrow> field_def_t" where
  "field_u8 name = field_of name FIELD_TYPE_U8 1 ENDIAN_DEFAULT"

definition field_u16 :: "string \<Rightarrow> endian_t \<Rightarrow> field_def_t" where
  "field_u16 name e = field_of name FIELD_TYPE_U16 2 e"

definition field_s16 :: "string \<Rightarrow> endian_t \<Rightarrow> field_def_t" where
  "field_s16 name e = field_of name FIELD_TYPE_S16 2 e"

definition field_u24 :: "string \<Rightarrow> endian_t \<Rightarrow> field_def_t" where
  "field_u24 name e = field_of name FIELD_TYPE_U24 3 e"

definition field_skip :: "nat \<Rightarrow> field_def_t" where
  "field_skip n = field_of ''_skip'' FIELD_TYPE_SKIP n ENDIAN_DEFAULT"

definition field_set_mult :: "field_def_t \<Rightarrow> fp \<Rightarrow> field_def_t" where
  "field_set_mult f m = f\<lparr>f_mult := m, f_has_mult := True\<rparr>"

definition field_set_var :: "field_def_t \<Rightarrow> string \<Rightarrow> field_def_t" where
  "field_set_var f v = f\<lparr>f_var_name := take (SCHEMA_MAX_NAME_LEN - 1) v\<rparr>"

definition schema_init :: schema_t where
  "schema_init = \<lparr>s_version = 0, s_endian = ENDIAN_BIG, s_fields = []\<rparr>"

definition schema_add_field :: "schema_t \<Rightarrow> field_def_t \<Rightarrow> schema_t" where
  "schema_add_field s f =
     (if length (s_fields s) < SCHEMA_MAX_FIELDS then s\<lparr>s_fields := s_fields s @ [f]\<rparr> else s)"


section \<open>The encoder (lines 910--1131)\<close>

text \<open>
  An input is a name and the \<open>double\<close> that \<open>encode_field\<close> reads from the union
  (\<open>input->value.f64\<close>).  The output buffer \<open>data[SCHEMA_MAX_PAYLOAD]\<close> is a list of
  256 bytes, zeroed by \<open>memset\<close>; a store outside it is undefined behaviour.
\<close>

type_synonym encode_inputs_t = "(string \<times> fp) list"

record encode_result_t =
  e_data :: "byte list"
  e_len :: int
  e_error_code :: int

definition encode_inputs_init :: encode_inputs_t where
  "encode_inputs_init = []"

definition encode_inputs_add_double :: "encode_inputs_t \<Rightarrow> string \<Rightarrow> fp \<Rightarrow> encode_inputs_t" where
  "encode_inputs_add_double inputs name val =
     (if length inputs \<ge> SCHEMA_MAX_FIELDS then inputs
      else inputs @ [(take (SCHEMA_MAX_NAME_LEN - 1) name, val)])"

text \<open>\<open>encode_inputs_add_int\<close> stores the \<open>i64\<close> member; read back as \<open>f64\<close> it is
  the double with the same bit pattern.\<close>

definition encode_inputs_add_int :: "encode_inputs_t \<Rightarrow> string \<Rightarrow> int \<Rightarrow> encode_inputs_t" where
  "encode_inputs_add_int inputs name val =
     (if length inputs \<ge> SCHEMA_MAX_FIELDS then inputs
      else inputs @ [(take (SCHEMA_MAX_NAME_LEN - 1) name,
                      fp_of_bits binary64 (uint (word_of_int val :: 64 word)))])"

fun find_input :: "encode_inputs_t \<Rightarrow> string \<Rightarrow> fp option" where
  "find_input [] name = None"
| "find_input ((n, v) # rest) name = (if n = name then Some v else find_input rest name)"

text \<open>\<open>store buf pos bs\<close> writes the bytes \<open>bs\<close> at \<open>buf[pos ...]\<close>.\<close>

definition store :: "byte list \<Rightarrow> nat \<Rightarrow> byte list \<Rightarrow> byte list option" where
  "store buf pos bs =
     (if pos + length bs \<le> length buf
        then Some (take pos buf @ bs @ drop (pos + length bs) buf)
      else None)"

text \<open>The bytes of \<open>(uint64_t)val\<close>, least significant first.\<close>

definition le_bytes :: "nat \<Rightarrow> int \<Rightarrow> byte list" where
  "le_bytes n val = map (\<lambda>i. word_of_int (drop_bit (8 * i) val)) [0 ..< n]"

definition write_int ::
  "byte list \<Rightarrow> nat \<Rightarrow> int \<Rightarrow> nat \<Rightarrow> endian_t \<Rightarrow> (byte list \<times> nat) option"
where
  "write_int buf pos val sz endian =
     map_option (\<lambda>buf'. (buf', pos + sz))
       (store buf pos (if endian = ENDIAN_BIG then rev (le_bytes sz val) else le_bytes sz val))"

datatype enc_result = EncError int | EncOk "byte list" nat

definition enc_ok :: "(byte list \<times> nat) option \<Rightarrow> enc_result option" where
  "enc_ok r = map_option (\<lambda>(buf, pos). EncOk buf pos) r"

definition fp_half :: "bool \<Rightarrow> fp" where
  "fp_half s = Finite s (1 / 2)"

text \<open>\<open>if (has_add) v -= add; if (has_mult && mult != 0) v /= mult; if (has_div) v *= div;\<close>\<close>

definition reverse_modifiers :: "field_def_t \<Rightarrow> fp \<Rightarrow> fp" where
  "reverse_modifiers fld v0 =
     (let v1 = (if f_has_add fld then fp_sub binary64 v0 (f_add fld) else v0);
          v2 = (if f_has_mult fld \<and> \<not> fp_eq (f_mult fld) fp_zero
                  then fp_div binary64 v1 (f_mult fld) else v1)
      in if f_has_div fld then fp_mul binary64 v2 (f_div fld) else v2)"

text \<open>\<open>(int64_t)(raw_val + (raw_val >= 0 ? 0.5 : -0.5))\<close>\<close>

definition round_to_int64 :: "fp \<Rightarrow> int option" where
  "round_to_int64 raw_val =
     fp_to_sint 64 (fp_add binary64 raw_val (fp_half (\<not> fp_ge_zero raw_val)))"

text \<open>The bit-field case.  The shifts are computed in \<open>int\<close>: they are undefined for a
  width above 30, a start above 31, or a mask that does not fit.\<close>

definition encode_bits :: "field_def_t \<Rightarrow> byte list \<Rightarrow> nat \<Rightarrow> int \<Rightarrow> enc_result option" where
  "encode_bits fld buf pos int_val =
     (let w = f_bit_width fld; st = f_bit_start fld
      in if pos \<ge> length buf then None
         else if w \<ge> 31 \<or> st \<ge> 32 \<or> (2 ^ w - 1) * 2 ^ st \<ge> (2 :: int) ^ 31 then None
         else
           (let byte_val = buf ! pos;
                mask = (word_of_int ((2 ^ w - 1) * 2 ^ st) :: byte);
                b1 = byte_val AND NOT mask;
                b2 = b1 OR word_of_int (take_bit w int_val * 2 ^ st)
            in Some (EncOk (buf[pos := b2]) (if f_consume fld then pos + 1 else pos))))"

definition encode_udec :: "byte list \<Rightarrow> nat \<Rightarrow> fp \<Rightarrow> enc_result option" where
  "encode_udec buf pos raw_val =
     (case fp_to_sint 32 raw_val of
        None \<Rightarrow> None
      | Some whole \<Rightarrow>
          (case fp_to_sint 32
                  (fp_add binary64
                     (fp_mul binary64 (fp_sub binary64 raw_val (fp_of_int binary64 whole))
                        (fp_of_int binary64 10))
                     (fp_half False)) of
             None \<Rightarrow> None
           | Some frac0 \<Rightarrow>
               (let whole1 = (if whole > 9 then 9 else whole);
                    whole2 = (if whole1 < 0 then 0 else whole1);
                    frac1 = (if frac0 > 9 then 9 else frac0)
                in enc_ok (map_option (\<lambda>b. (b, pos + 1))
                     (store buf pos [word_of_int (whole2 * 16 OR (frac1 AND 0x0F))])))))"

definition encode_sdec :: "byte list \<Rightarrow> nat \<Rightarrow> fp \<Rightarrow> enc_result option" where
  "encode_sdec buf pos raw_val =
     (case fp_to_sint 32 raw_val of
        None \<Rightarrow> None
      | Some whole0 \<Rightarrow>
          (let frac_part0 = fp_sub binary64 raw_val (fp_of_int binary64 whole0);
               adjust = (fp_lt_zero raw_val \<and> \<not> fp_eq frac_part0 fp_zero);
               whole = (if adjust then whole0 - 1 else whole0);
               frac_part = (if adjust then fp_sub binary64 raw_val (fp_of_int binary64 whole)
                            else frac_part0)
           in if whole < - (2 ^ 31) then None
              else
                (case fp_to_sint 32
                        (fp_add binary64 (fp_mul binary64 frac_part (fp_of_int binary64 10))
                           (fp_half False)) of
                   None \<Rightarrow> None
                 | Some frac0 \<Rightarrow>
                     (let whole1 = (if whole < - 8 then - 8 else whole);
                          whole2 = (if whole1 > 7 then 7 else whole1);
                          frac1 = (if frac0 > 9 then 9 else frac0);
                          whole_nibble = (word_of_int (whole2 AND 0x0F) :: byte)
                      in enc_ok (map_option (\<lambda>b. (b, pos + 1))
                           (store buf pos
                              [word_of_int (uint whole_nibble * 16 OR (frac1 AND 0x0F))]))))))"

definition encode_field ::
  "field_def_t \<Rightarrow> encode_inputs_t \<Rightarrow> byte list \<Rightarrow> nat \<Rightarrow> endian_t \<Rightarrow> enc_result option"
where
  "encode_field fld inputs buf pos schema_endian =
     (let input = find_input inputs (f_name fld)
      in if input = None \<and> f_type fld \<noteq> FIELD_TYPE_SKIP then Some (EncError SCHEMA_ERR_PARSE)
         else
           (let raw_val = reverse_modifiers fld (case input of Some v \<Rightarrow> v | None \<Rightarrow> fp_zero)
            in case round_to_int64 raw_val of
                 None \<Rightarrow> None
               | Some int_val \<Rightarrow>
                   (let endian = effective_endian fld schema_endian
                    in case f_type fld of
                         FIELD_TYPE_U8 \<Rightarrow>
                           enc_ok (map_option (\<lambda>b. (b, pos + 1)) (store buf pos [word_of_int int_val]))
                       | FIELD_TYPE_S8 \<Rightarrow>
                           enc_ok (map_option (\<lambda>b. (b, pos + 1)) (store buf pos [word_of_int int_val]))
                       | FIELD_TYPE_U16 \<Rightarrow> enc_ok (write_int buf pos int_val 2 endian)
                       | FIELD_TYPE_S16 \<Rightarrow> enc_ok (write_int buf pos int_val 2 endian)
                       | FIELD_TYPE_U24 \<Rightarrow> enc_ok (write_int buf pos int_val 3 endian)
                       | FIELD_TYPE_S24 \<Rightarrow> enc_ok (write_int buf pos int_val 3 endian)
                       | FIELD_TYPE_U32 \<Rightarrow> enc_ok (write_int buf pos int_val 4 endian)
                       | FIELD_TYPE_S32 \<Rightarrow> enc_ok (write_int buf pos int_val 4 endian)
                       | FIELD_TYPE_U64 \<Rightarrow> enc_ok (write_int buf pos int_val 8 endian)
                       | FIELD_TYPE_S64 \<Rightarrow> enc_ok (write_int buf pos int_val 8 endian)
                       | FIELD_TYPE_F32 \<Rightarrow>
                           enc_ok (write_int buf pos
                                     (bits_of_fp binary32 (fp_cvt binary32 raw_val)) 4 endian)
                       | FIELD_TYPE_F64 \<Rightarrow>
                           enc_ok (write_int buf pos (bits_of_fp binary64 raw_val) 8 endian)
                       | FIELD_TYPE_BOOL \<Rightarrow>
                           enc_ok (map_option (\<lambda>b. (b, pos + 1))
                                     (store buf pos [if int_val \<noteq> 0 then 1 else 0]))
                       | FIELD_TYPE_BITS \<Rightarrow> encode_bits fld buf pos int_val
                       | FIELD_TYPE_SKIP \<Rightarrow>
                           enc_ok (map_option (\<lambda>b. (b, pos + f_size fld))
                                     (store buf pos (replicate (f_size fld) 0)))
                       | FIELD_TYPE_UDEC \<Rightarrow> encode_udec buf pos raw_val
                       | FIELD_TYPE_SDEC \<Rightarrow> encode_sdec buf pos raw_val
                       | _ \<Rightarrow> Some (EncError SCHEMA_ERR_UNSUPPORTED))))"

text \<open>The main loop skips the fields whose name starts with an underscore and the
  match fields.\<close>

definition encode_skipped :: "field_def_t \<Rightarrow> bool" where
  "encode_skipped fld =
     ((f_name fld \<noteq> [] \<and> hd (f_name fld) = CHR ''_'') \<or> f_type fld = FIELD_TYPE_MATCH)"

fun encode_fields ::
  "schema_t \<Rightarrow> encode_inputs_t \<Rightarrow> field_def_t list \<Rightarrow> byte list \<Rightarrow> nat
     \<Rightarrow> (byte list \<times> nat) outcome"
where
  "encode_fields s inputs [] buf pos = Continue (buf, pos)"
| "encode_fields s inputs (fld # rest) buf pos =
     (if encode_skipped fld then encode_fields s inputs rest buf pos
      else case encode_field fld inputs buf pos (s_endian s) of
             None \<Rightarrow> Undefined
           | Some (EncError rc) \<Rightarrow> Abort rc (buf, pos)
           | Some (EncOk buf' pos') \<Rightarrow> encode_fields s inputs rest buf' pos')"

text \<open>\<open>schema_encode\<close> returns the code it stores in \<open>error_code\<close>; \<open>len\<close> is assigned
  only on the successful exit.\<close>

definition schema_encode :: "schema_t \<Rightarrow> encode_inputs_t \<Rightarrow> encode_result_t option" where
  "schema_encode s inputs =
     (case encode_fields s inputs (s_fields s) (replicate SCHEMA_MAX_PAYLOAD 0) 0 of
        Continue (buf, pos) \<Rightarrow>
          Some \<lparr>e_data = buf, e_len = int pos, e_error_code = SCHEMA_OK\<rparr>
      | Abort rc (buf, pos) \<Rightarrow>
          Some \<lparr>e_data = buf, e_len = 0, e_error_code = rc\<rparr>
      | Undefined \<Rightarrow> None)"



section \<open>Binary schema loading (lines 1397--1574)\<close>

definition BINARY_TYPE_ENUM :: nat where "BINARY_TYPE_ENUM = 5"

















section \<open>Schemas and inputs of the scenarios\<close>

text \<open>The literal \<open>0.01\<close> is the double nearest to one hundredth, and \<open>23.45\<close> the
  double nearest to \<open>2345/100\<close>.\<close>

definition fp_literal :: "rat \<Rightarrow> fp" where
  "fp_literal q = fp_round binary64 (q < 0) \<bar>q\<bar>"



text \<open>The schema of \<open>test_match\<close> (test\_comprehensive.c, lines 735--769): every
  \<open>match_list\<close> entry is \<open>-1\<close>, the other members of a case are zero unless set.\<close>

definition match_case :: "int \<Rightarrow> int \<Rightarrow> int \<Rightarrow> case_def_t" where
  "match_case v start cnt =
     \<lparr>match_value = v, match_list = replicate 8 (- 1), range_min = 0, range_max = 0,
      is_default = False, field_start = start, field_count = cnt\<rparr>"

definition match_field :: "string \<Rightarrow> case_def_t list \<Rightarrow> field_def_t" where
  "match_field var cs =
     field_blank\<lparr>f_name := ''_match'', f_type := FIELD_TYPE_MATCH, f_match_var := var,
                 f_cases := cs\<rparr>"

definition match_schema :: schema_t where
  "match_schema =
     schema_add_field (schema_add_field (schema_add_field (schema_add_field schema_init
       (field_set_var (field_u8 ''msg_type'') ''msg_type''))
       (match_field ''$msg_type'' [match_case 1 2 1, match_case 2 3 1]))
       (field_set_mult (field_s16 ''temperature'' ENDIAN_BIG) (fp_literal (1 / 100))))
       (field_u8 ''humidity'')"


text \<open>A message type that selects, through a match, an internal field.\<close>

definition internal_case_schema :: schema_t where
  "internal_case_schema =
     schema_add_field (schema_add_field (schema_add_field schema_init
       (field_set_var (field_u8 ''kind'') ''kind''))
       (match_field ''$kind'' [match_case 1 2 1]))
       (field_u8 ''_hidden'')"

text \<open>The schema of \<open>test_encode_missing_field\<close> (test\_comprehensive.c, lines
  1266--1282).\<close>

definition missing_schema :: schema_t where
  "missing_schema =
     schema_add_field (schema_add_field schema_init (field_u8 ''temperature''))
       (field_u8 ''humidity'')"

definition missing_inputs :: encode_inputs_t where
  "missing_inputs = encode_inputs_add_double encode_inputs_init ''temperature'' (fp_literal 25)"

text \<open>Scenario 6 and a two-field variant of it.\<close>

definition u24_schema :: schema_t where
  "u24_schema = schema_add_field schema_init (field_u24 ''val'' ENDIAN_BIG)"

definition short_schema :: schema_t where
  "short_schema =
     schema_add_field (schema_add_field schema_init (field_u8 ''a''))
       (field_u16 ''b'' ENDIAN_BIG)"

definition skip_schema :: schema_t where
  "skip_schema = schema_add_field schema_init (field_skip 4)"






section \<open>Plain integer fields\<close>















section \<open>Three-byte signed reads\<close>

lemma u24_be_take_bit: "take_bit 24 (read_u24_be buf) = read_u24_be buf"
  unfolding read_u24_be_def
  by (rule bit_word_eqI) (auto simp: bit_simps dest: bit_imp_le_length)

lemma u24_le_take_bit: "take_bit 24 (read_u24_le buf) = read_u24_le buf"
  unfolding read_u24_le_def
  by (rule bit_word_eqI) (auto simp: bit_simps dest: bit_imp_le_length)

lemma and_bit23: "(v AND 0x800000 \<noteq> 0) = bit (v :: 32 word) 23"
proof -
  have "(0x800000 :: 32 word) = push_bit 23 1" by simp
  then show ?thesis
    by (metis and_exp_eq_0_iff_not_bit push_bit_of_1)
qed

lemma hi_byte_bits: "bit (0xFF000000 :: 32 word) n \<Longrightarrow> 24 \<le> n"
proof -
  have c: "(0xFF000000 :: 32 word) = push_bit 24 0xFF" by simp
  show "bit (0xFF000000 :: 32 word) n \<Longrightarrow> 24 \<le> n"
    unfolding c by (simp only: bit_push_bit_iff)
qed

lemma lo24_bits: "take_bit 24 v = v \<Longrightarrow> bit (v :: 32 word) n \<Longrightarrow> n < 24"
proof -
  assume t: "take_bit 24 v = v" and b: "bit v n"
  from b have "bit (take_bit 24 v) n" by (simp only: t)
  then show "n < 24" by (simp only: bit_take_bit_iff)
qed

lemma uint_lt_2p24: "take_bit 24 v = v \<Longrightarrow> uint (v :: 32 word) < 2 ^ 24"
proof -
  assume t: "take_bit 24 v = v"
  have "uint (take_bit 24 v) < 2 ^ 24"
    by (simp only: unsigned_take_bit_eq take_bit_int_less_exp)
  then show ?thesis by (simp only: t)
qed

lemma sint32_uint: "sint (w :: 32 word) = (uint w + 2 ^ 31) mod 2 ^ 32 - 2 ^ 31"
proof -
  have "sint (word_of_int (uint w) :: 32 word) = (uint w + 2 ^ 31) mod 2 ^ 32 - 2 ^ 31"
    by (simp only: int_word_sint) simp
  then show ?thesis by simp
qed

lemma wrap_hi:
  assumes "0 \<le> (x::int)" "x < 16777216"
  shows "(x + 4278190080 + 2147483648) mod 4294967296 - 2147483648 = x - 16777216"
proof -
  have "x + 4278190080 + 2147483648 = (x + 2130706432) + 4294967296" by simp
  then have "(x + 4278190080 + 2147483648) mod 4294967296 = (x + 2130706432) mod 4294967296"
    by (simp only: mod_add_self2)
  also have "\<dots> = x + 2130706432"
    using assms by (intro mod_pos_pos_trivial) simp_all
  finally show ?thesis by simp
qed

lemma wrap_lo:
  assumes "0 \<le> (x::int)" "x < 16777216"
  shows "(x + 2147483648) mod 4294967296 - 2147483648 = x"
proof -
  have "(x + 2147483648) mod 4294967296 = x + 2147483648"
    using assms by (intro mod_pos_pos_trivial) simp_all
  then show ?thesis by simp
qed

lemma sign_extend_set:
  assumes t: "take_bit 24 v = v"
  shows "sint (v OR 0xFF000000 :: 32 word) = uint v - 2 ^ 24"
proof -
  have nb: "\<not> bit v n \<or> \<not> bit (0xFF000000 :: 32 word) n" for n
    using lo24_bits [OF t, of n] hi_byte_bits [of n] by auto
  have lt: "uint v < 2 ^ 24" using t by (rule uint_lt_2p24)
  have eq: "v OR 0xFF000000 = v + 0xFF000000"
    using nb by (rule disjunctive_add [symmetric])
  have u: "uint (v + 0xFF000000) = uint v + 0xFF000000"
    using lt by (simp add: uint_word_ariths take_bit_int_eq_self)
  have ge: "0 \<le> uint v" by simp
  show ?thesis
    unfolding eq sint32_uint u using wrap_hi [OF ge] lt by simp
qed

lemma sign_extend_clear:
  assumes t: "take_bit 24 v = v"
  shows "sint (v :: 32 word) = uint v"
proof -
  have lt: "uint v < 2 ^ 24" using t by (rule uint_lt_2p24)
  have ge: "0 \<le> uint v" by simp
  show ?thesis
    unfolding sint32_uint using wrap_lo [OF ge] lt by simp
qed

lemma read_s24_be_value:
  "sint (read_s24_be buf) =
     (if bit (read_u24_be buf) 23 then uint (read_u24_be buf) - 2 ^ 24
      else uint (read_u24_be buf))"
  unfolding read_s24_be_def Let_def and_bit23
  using sign_extend_set [OF u24_be_take_bit, of buf]
        sign_extend_clear [OF u24_be_take_bit, of buf]
  by simp

lemma read_s24_le_value:
  "sint (read_s24_le buf) =
     (if bit (read_u24_le buf) 23 then uint (read_u24_le buf) - 2 ^ 24
      else uint (read_u24_le buf))"
  unfolding read_s24_le_def Let_def and_bit23
  using sign_extend_set [OF u24_le_take_bit, of buf]
        sign_extend_clear [OF u24_le_take_bit, of buf]
  by simp

text \<open>
  Claim C8.  Three-byte signed reads sign-extend from bit 23 in both byte orders: for
  every three-byte buffer the signed read is the unsigned read when bit 23 of it is
  clear and the unsigned read minus \<open>2^24\<close> when bit 23 is set; and the bytes
  \<open>FF FF 9C\<close>, read as three-byte signed big-endian, give \<open>-100\<close>.
\<close>

theorem read_s24_sign_extends:
  "sint (read_s24_be [a, b, c]) =
     (if bit (read_u24_be [a, b, c]) 23 then uint (read_u24_be [a, b, c]) - 2 ^ 24
      else uint (read_u24_be [a, b, c]))
   \<and> sint (read_s24_le [a, b, c]) =
     (if bit (read_u24_le [a, b, c]) 23 then uint (read_u24_le [a, b, c]) - 2 ^ 24
      else uint (read_u24_le [a, b, c]))
   \<and> sint (read_s24_be [0xFF, 0xFF, 0x9C]) = - 100"
proof -
  have "sint (read_s24_be [0xFF, 0xFF, 0x9C]) = - 100"
    by (simp add: read_s24_be_def read_u24_be_def)
  then show ?thesis
    using read_s24_be_value [of "[a, b, c]"] read_s24_le_value [of "[a, b, c]"]
    by simp
qed


section \<open>Exactness of rounding and the half-precision reader\<close>

lemma pow2_pos: "0 < pow2 e"
  by (simp add: pow2_def)

lemma pow2_add: "pow2 (a + b) = pow2 a * pow2 b"
  by (simp add: pow2_def power_int_add)

lemma pow2_mono: "a \<le> b \<Longrightarrow> pow2 a \<le> pow2 b"
  by (simp add: pow2_def power_int_increasing)

lemma pow2_less_cancel: "pow2 a < pow2 b \<Longrightarrow> a < b"
  using pow2_mono [of b a] by (cases "a < b") auto

lemma pow2_nat: "pow2 (int n) = 2 ^ n"
  by (simp add: pow2_def)

lemma rne_int: "rne (of_int n) = n"
  by (simp add: rne_def)

lemma bitlen_ge1: "0 < a \<Longrightarrow> 1 \<le> bitlen a"
  by (simp add: bitlen_alt_def)

lemma bitlen_rat_bounds:
  assumes "0 < a"
  shows "pow2 (bitlen a - 1) \<le> of_int a" "of_int a < pow2 (bitlen a)"
proof -
  from bitlen_bounds [OF assms] have lo: "2 ^ nat (bitlen a - 1) \<le> a" and hi: "a < 2 ^ nat (bitlen a)"
    by auto
  have n1: "int (nat (bitlen a - 1)) = bitlen a - 1" using bitlen_ge1 [OF assms] by simp
  have n2: "int (nat (bitlen a)) = bitlen a" using bitlen_ge1 [OF assms] by simp
  have "pow2 (int (nat (bitlen a - 1))) \<le> of_int a"
    unfolding pow2_nat using lo by (metis of_int_le_iff of_int_numeral of_int_power)
  then show "pow2 (bitlen a - 1) \<le> of_int a" by (simp only: n1)
  have "of_int a < pow2 (int (nat (bitlen a)))"
    unfolding pow2_nat using hi by (metis of_int_less_iff of_int_numeral of_int_power)
  then show "of_int a < pow2 (bitlen a)" by (simp only: n2)
qed

lemma ilog2_bounds:
  assumes "0 < m"
  shows "pow2 (ilog2 m) \<le> m \<and> m < pow2 (ilog2 m + 1)"
proof -
  obtain a b where q: "quotient_of m = (a, b)" by (cases "quotient_of m")
  have bpos: "0 < b" using q by (rule quotient_of_denom_pos)
  have m: "m = of_int a / of_int b" using q by (rule quotient_of_div)
  have apos: "0 < a" using assms bpos unfolding m by (simp add: zero_less_divide_iff)
  define k where "k = bitlen a - bitlen b"
  have bq: "0 < (of_int b :: rat)" using bpos by simp
  have up: "m < pow2 (k + 1)"
  proof -
    have "of_int a < pow2 (bitlen a)" using bitlen_rat_bounds(2) [OF apos] .
    also have "\<dots> = pow2 (k + 1) * pow2 (bitlen b - 1)"
      unfolding k_def pow2_add [symmetric] by simp
    also have "\<dots> \<le> pow2 (k + 1) * of_int b"
      using bitlen_rat_bounds(1) [OF bpos] pow2_pos [of "k + 1"] by simp
    finally show ?thesis unfolding m using bq by (simp add: pos_divide_less_eq)
  qed
  have lo: "pow2 (k - 1) \<le> m"
  proof -
    have "pow2 (k - 1) * of_int b \<le> pow2 (k - 1) * pow2 (bitlen b)"
      using bitlen_rat_bounds(2) [OF bpos] pow2_pos [of "k - 1"] by simp
    also have "\<dots> = pow2 (bitlen a - 1)"
      unfolding k_def pow2_add [symmetric] by simp
    also have "\<dots> \<le> of_int a" using bitlen_rat_bounds(1) [OF apos] .
    finally show ?thesis unfolding m using bq by (simp add: pos_le_divide_eq)
  qed
  have il: "ilog2 m = (if pow2 k \<le> m then k else k - 1)"
    unfolding ilog2_def q k_def by simp
  show ?thesis
  proof (cases "pow2 k \<le> m")
    case True
    then show ?thesis using up il by simp
  next
    case False
    then show ?thesis using lo il by simp
  qed
qed

lemma fp_round_exact:
  assumes m: "m = of_int k * pow2 j" and k0: "0 < k" and kp: "k < 2 ^ prec f"
    and sub: "2 - emax f - int (prec f) \<le> j" and ov: "m < pow2 (emax f + 1)"
    and em: "1 \<le> emax f"
  shows "fp_round f s m = Finite s m"
proof -
  have mpos: "0 < m" unfolding m using k0 pow2_pos [of j] by simp
  define e where "e = max (ilog2 m) (1 - emax f)"
  define d where "d = e - int (prec f) + 1"
  have il: "pow2 (ilog2 m) \<le> m" using ilog2_bounds [OF mpos] by simp
  have dj: "d \<le> j"
  proof (cases "ilog2 m \<le> 1 - emax f")
    case True
    then show ?thesis using sub unfolding d_def e_def by simp
  next
    case False
    note il
    also have "m < 2 ^ prec f * pow2 j"
      unfolding m using kp pow2_pos [of j]
      by (metis mult_strict_right_mono of_int_less_iff of_int_numeral of_int_power)
    also have "2 ^ prec f * pow2 j = pow2 (int (prec f) + j)"
      by (simp add: pow2_add pow2_nat)
    finally have "ilog2 m < int (prec f) + j" by (rule pow2_less_cancel)
    then show ?thesis using False unfolding d_def e_def by simp
  qed
  have pj: "pow2 j = pow2 (j - d) * pow2 d"
    unfolding pow2_add [symmetric] by simp
  have pn: "pow2 (j - d) = of_int (2 ^ nat (j - d))"
    using dj pow2_nat [of "nat (j - d)"] by simp
  have quot: "m / pow2 d = of_int (k * 2 ^ nat (j - d))"
    unfolding m pj pn using pow2_pos [of d] by simp
  have n: "rne (m / pow2 d) = k * 2 ^ nat (j - d)"
    unfolding quot by (rule rne_int)
  have r: "of_int (k * 2 ^ nat (j - d)) * pow2 d = m"
    unfolding m pj pn by simp
  have "pow2 (ilog2 m) < pow2 (emax f + 1)" using il ov by simp
  then have "ilog2 m < emax f + 1" by (rule pow2_less_cancel)
  then have e_le: "e \<le> emax f" unfolding e_def using em by simp
  have small: "k * 2 ^ nat (j - d) < 2 ^ prec f" if ee: "e = emax f"
  proof -
    have "of_int (k * 2 ^ nat (j - d)) * pow2 d < pow2 (emax f + 1)"
      unfolding r using ov .
    also have "pow2 (emax f + 1) = pow2 (int (prec f)) * pow2 d"
      unfolding pow2_add [symmetric] d_def ee by simp
    finally have "(of_int (k * 2 ^ nat (j - d)) :: rat) < pow2 (int (prec f))"
      using pow2_pos [of d] by simp
    then have "(of_int (k * 2 ^ nat (j - d)) :: rat) < of_int (2 ^ prec f)"
      by (simp add: pow2_nat)
    then show ?thesis by (simp only: of_int_less_iff)
  qed
  have no_ov: "\<not> (e > emax f \<or> (e = emax f \<and> k * 2 ^ nat (j - d) \<ge> 2 ^ prec f))"
    using e_le small by auto
  show ?thesis
    unfolding fp_round_def Let_def e_def [symmetric] d_def [symmetric] n r
    using mpos no_ov by simp
qed

lemma f16_frac_bound: "uint (f16_frac h) < 1024"
proof -
  have "f16_frac h \<le> 0x3FF" unfolding f16_frac_def by (rule word_and_le1)
  then have "uint (f16_frac h) \<le> uint (0x3FF :: 32 word)" by (simp only: word_le_def)
  then show ?thesis by simp
qed

lemma f16_subnormal_value:
  assumes k0: "0 < k" and k1: "k < 1024"
  shows "fp_mul binary32 (fp_div binary32 (fp_of_int binary32 k) (Finite False 1024))
           (Finite False (1 / 16384))
         = Finite False (of_int k / 1024 * pow2 (- 14))"
proof -
  have kr: "(of_int k :: rat) < 1024" using k1 by simp
  have kr0: "(0 :: rat) < of_int k" using k0 by simp
  have k24: "k < 2 ^ prec binary32" using k1 by (simp add: binary32_def)
  have a: "fp_of_int binary32 k = Finite False (of_int k)"
    unfolding fp_of_int_def
    using fp_round_exact [of "of_int k" k 0 binary32 False] k0 k24 kr
    by (simp add: binary32_def pow2_def)
  have p10: "pow2 (- 10) = 1 / 1024" by (simp add: pow2_def power_int_minus)
  have p24: "pow2 (- 24) = 1 / 16777216" by (simp add: pow2_def power_int_minus)
  have p14: "pow2 (- 14) = 1 / 16384" by (simp add: pow2_def power_int_minus)
  have b: "fp_round binary32 False (of_int k / 1024) = Finite False (of_int k / 1024)"
    using fp_round_exact [of "of_int k / 1024" k "- 10" binary32 False] k0 k24 kr
    by (simp add: binary32_def p10) (simp add: pow2_def)
  have c: "fp_round binary32 False (of_int k / 1024 * (1 / 16384))
           = Finite False (of_int k / 1024 * (1 / 16384))"
    using fp_round_exact [of "of_int k / 1024 * (1 / 16384)" k "- 24" binary32 False] k0 k24 kr
    by (simp add: binary32_def p24) (simp add: pow2_def)
  show ?thesis
    unfolding a using b c by (simp add: p14)
qed


lemma scale_up:
  assumes m: "m = of_int k * pow2 j" and k0: "0 < k" and kp: "k < 2 ^ 24" and j: "- 149 \<le> j"
    and ov: "m * 2 ^ n < pow2 128"
  shows "((\<lambda>v. fp_mul binary32 v (Finite False 2)) ^^ n) (Finite False m) = Finite False (m * 2 ^ n)"
  using ov
proof (induction n)
  case 0
  then show ?case by simp
next
  case (Suc n)
  have mpos: "0 < m" unfolding m using k0 pow2_pos [of j] by simp
  have "m * 2 ^ n \<le> m * 2 ^ Suc n" using mpos by simp
  then have "m * 2 ^ n < pow2 128" using Suc.prems by simp
  then have ih: "((\<lambda>v. fp_mul binary32 v (Finite False 2)) ^^ n) (Finite False m)
                 = Finite False (m * 2 ^ n)" by (rule Suc.IH)
  have e: "m * 2 ^ n * 2 = of_int k * pow2 (j + int (Suc n))"
    unfolding m pow2_add pow2_nat by simp
  have "fp_round binary32 False (m * 2 ^ n * 2) = Finite False (m * 2 ^ n * 2)"
    using fp_round_exact [OF e k0, of binary32 False] kp j Suc.prems
    by (simp add: binary32_def)
  then show ?case using ih by simp
qed

lemma scale_down:
  assumes m: "m = of_int k * pow2 j" and k0: "0 < k" and kp: "k < 2 ^ 24"
    and j: "- 149 \<le> j - int n" and ov: "m < pow2 128"
  shows "((\<lambda>v. fp_div binary32 v (Finite False 2)) ^^ n) (Finite False m) = Finite False (m / 2 ^ n)"
  using j
proof (induction n)
  case 0
  then show ?case by simp
next
  case (Suc n)
  have mpos: "0 < m" unfolding m using k0 pow2_pos [of j] by simp
  have ih: "((\<lambda>v. fp_div binary32 v (Finite False 2)) ^^ n) (Finite False m)
                 = Finite False (m / 2 ^ n)" using Suc.prems by (intro Suc.IH) simp
  have "pow2 j = pow2 (j - int (Suc n)) * pow2 (int (Suc n))"
    unfolding pow2_add [symmetric] by simp
  then have e: "m / 2 ^ n / 2 = of_int k * pow2 (j - int (Suc n))"
    unfolding m pow2_nat by simp
  have "(1::rat) \<le> 2 ^ Suc n" by (rule one_le_power) simp
  then have "m / 2 ^ Suc n \<le> m / 1" using mpos by (intro frac_le) simp_all
  then have lt: "m / 2 ^ n / 2 < pow2 128" using ov by simp
  have "fp_round binary32 False (m / 2 ^ n / 2) = Finite False (m / 2 ^ n / 2)"
    using fp_round_exact [OF e k0, of binary32 False] kp Suc.prems lt
    by (simp add: binary32_def)
  then show ?case using ih by simp
qed

lemma uint_and_mask:
  fixes x :: "'a::len word"
  assumes "uint m = 2 ^ n - 1"
  shows "uint (x AND m) = uint x mod 2 ^ n"
proof -
  have "uint (x AND m) = uint x AND mask n"
    by (simp only: unsigned_and_eq assms mask_eq_exp_minus_1)
  also have "\<dots> = uint x mod 2 ^ n"
    by (simp only: take_bit_eq_mask [symmetric] take_bit_eq_mod)
  finally show ?thesis .
qed

lemma uint_ucast_16_32: "uint (ucast (h :: 16 word) :: 32 word) = uint h"
proof -
  have "uint h < 2 ^ 32" using uint_lt2p [of h] by simp
  then show ?thesis by (simp add: unsigned_ucast_eq take_bit_int_eq_self)
qed

lemma uint_drop_bit_16: "uint (drop_bit n (h :: 16 word)) = uint h div 2 ^ n"
proof -
  have "uint (drop_bit n h) = drop_bit n (take_bit LENGTH(16) (uint h))"
    by (rule unsigned_drop_bit_eq)
  also have "take_bit LENGTH(16) (uint h) = uint h"
    using uint_lt2p [of h] by (intro take_bit_int_eq_self) simp_all
  finally show ?thesis by (simp only: drop_bit_eq_div)
qed

lemma uint_f16_frac: "uint (f16_frac h) = uint h mod 1024"
  unfolding f16_frac_def
  using uint_and_mask [of "0x3FF :: 32 word" 10 "ucast h"] by (simp add: uint_ucast_16_32)

lemma uint_f16_exp: "uint (f16_exp h) = uint h div 1024 mod 32"
  unfolding f16_exp_def
  using uint_and_mask [of "0x1F :: 32 word" 5 "ucast (drop_bit 10 h)"] uint_drop_bit_16 [of 10 h]
  by (simp add: uint_ucast_16_32)

lemma uint_f16_sign: "uint (f16_sign h) = uint h div 32768 mod 2"
  unfolding f16_sign_def
  using uint_and_mask [of "1 :: 32 word" 1 "ucast (drop_bit 15 h)"] uint_drop_bit_16 [of 15 h]
  by (simp add: uint_ucast_16_32)

lemma uint_read_u16_be: "uint (read_u16_be [a, b]) = uint a * 256 + uint b"
proof -
  have d: "push_bit 8 (ucast a :: 16 word) OR ucast b = push_bit 8 (ucast a) + ucast b"
    by (rule disjunctive_add [symmetric]) (auto simp: bit_simps dest: bit_imp_le_length)
  have a: "uint a < 256" "0 \<le> uint a" using uint_lt2p [of a] by simp_all
  have b: "uint b < 256" "0 \<le> uint b" using uint_lt2p [of b] by simp_all
  have ua: "uint (ucast a :: 16 word) = uint a"
    using a by (simp add: unsigned_ucast_eq take_bit_int_eq_self)
  have "uint (push_bit 8 (ucast a :: 16 word))
        = take_bit LENGTH(16) (push_bit 8 (uint (ucast a :: 16 word)))"
    by (rule unsigned_push_bit_eq)
  also have "\<dots> = take_bit 16 (uint a * 256)"
    by (simp only: ua push_bit_eq_mult) simp
  finally have pa: "uint (push_bit 8 (ucast a :: 16 word)) = uint a * 256"
    using a by (simp add: take_bit_int_eq_self)
  have ub: "uint (ucast b :: 16 word) = uint b"
    using b by (simp add: unsigned_ucast_eq take_bit_int_eq_self)
  have "uint (push_bit 8 (ucast a :: 16 word) + ucast b) = (uint a * 256 + uint b) mod 2 ^ 16"
    by (simp only: uint_word_ariths pa ub) simp
  then show ?thesis
    unfolding read_u16_be_def using a b by (simp add: d)
qed


lemma f16_significand:
  assumes k0: "0 \<le> k" and k1: "k < 1024"
  shows "fp_add binary32 (Finite False 1)
           (fp_div binary32 (fp_of_int binary32 k) (Finite False 1024))
         = Finite False (1 + of_int k / 1024)"
proof (cases "k = 0")
  case True
  have r1: "fp_round binary32 False 1 = Finite False 1"
    using fp_round_exact [of 1 1 0 binary32 False] by (simp add: binary32_def pow2_def)
  have z: "fp_of_int binary32 0 = Finite False 0" by (simp add: fp_of_int_def fp_round_def)
  have d: "fp_div binary32 (Finite False 0) (Finite False 1024) = Finite False 0"
    by (simp add: fp_round_def)
  show ?thesis unfolding True z d by (simp add: sval_def r1)
next
  case False
  then have kp: "0 < k" using k0 by simp
  have kr: "(of_int k :: rat) < 1024" using k1 by simp
  have k24: "k < 2 ^ prec binary32" using k1 by (simp add: binary32_def)
  have p10: "pow2 (- 10) = 1 / 1024" by (simp add: pow2_def power_int_minus)
  have a: "fp_of_int binary32 k = Finite False (of_int k)"
    unfolding fp_of_int_def
    using fp_round_exact [of "of_int k" k 0 binary32 False] kp k24 kr
    by (simp add: binary32_def pow2_def)
  have b: "fp_round binary32 False (of_int k / 1024) = Finite False (of_int k / 1024)"
    using fp_round_exact [of "of_int k / 1024" k "- 10" binary32 False] kp k24 kr
    by (simp add: binary32_def p10) (simp add: pow2_def)
  have e: "(1 + of_int k / 1024 :: rat) = of_int (1024 + k) * pow2 (- 10)"
    by (simp add: p10 field_simps)
  have c: "fp_round binary32 False (1 + of_int k / 1024) = Finite False (1 + of_int k / 1024)"
    using fp_round_exact [OF e, of binary32 False] kp k1 kr
    by (simp add: binary32_def pow2_def)
  have pos: "(0::rat) < 1 + of_int k / 1024" using kp by (simp add: add_pos_pos)
  have ne: "(1 + of_int k / 1024 :: rat) \<noteq> 0" using pos by simp
  have nl: "\<not> (1 + of_int k / 1024 :: rat) < 0" using pos by simp
  have ab: "\<bar>1 + of_int k / 1024 :: rat\<bar> = 1 + of_int k / 1024" using pos by simp
  show ?thesis
    unfolding a using b c ne nl ab by (simp add: sval_def Let_def)
qed

lemma f16_normal_value:
  assumes k0: "0 \<le> k" and k1: "k < 1024" and e1: "1 \<le> e" and e2: "e \<le> 30"
  shows "(if e - 15 > 0
            then ((\<lambda>v. fp_mul binary32 v (Finite False 2)) ^^ nat (e - 15))
                   (Finite False (1 + of_int k / 1024))
          else ((\<lambda>v. fp_div binary32 v (Finite False 2)) ^^ nat (- (e - 15)))
                   (Finite False (1 + of_int k / 1024)))
         = Finite False ((1 + of_int k / 1024) * pow2 (e - 15))"
proof -
  define m :: rat where "m = 1 + of_int k / 1024"
  have p10: "pow2 (- 10) = 1 / 1024" by (simp add: pow2_def power_int_minus)
  have e: "m = of_int (1024 + k) * pow2 (- 10)"
    by (simp add: m_def p10 field_simps)
  have K0: "0 < 1024 + k" and K1: "1024 + k < 2 ^ 24" using k0 k1 by simp_all
  have kr: "(of_int k :: rat) < 1024" using k1 by simp
  have m2: "m < 2" unfolding m_def using kr by simp
  have mpos: "0 < m" unfolding e using K0 pow2_pos [of "- 10"] by simp
  show ?thesis
  proof (cases "e - 15 > 0")
    case True
    define n where "n = nat (e - 15)"
    have n15: "n \<le> 15" using e2 by (simp add: n_def)
    have "(2::rat) ^ n \<le> 2 ^ 15" using n15 by (intro power_increasing) simp_all
    then have "m * 2 ^ n \<le> m * 2 ^ 15" using mpos by simp
    also have "\<dots> < 2 * 2 ^ 15" using m2 by simp
    also have "\<dots> \<le> pow2 128" by (simp add: pow2_def)
    finally have ov: "m * 2 ^ n < pow2 128" .
    have "((\<lambda>v. fp_mul binary32 v (Finite False 2)) ^^ n) (Finite False m) = Finite False (m * 2 ^ n)"
      using scale_up [OF e K0 K1 _ ov] by simp
    moreover have "(2::rat) ^ n = pow2 (e - 15)"
      using True pow2_nat [of n] by (simp add: n_def)
    ultimately show ?thesis using True by (simp add: m_def n_def)
  next
    case False
    define n where "n = nat (- (e - 15))"
    have n14: "int n \<le> 14" using e1 False by (simp add: n_def)
    have ov: "m < pow2 128" using m2 by (simp add: pow2_def)
    have "((\<lambda>v. fp_div binary32 v (Finite False 2)) ^^ n) (Finite False m) = Finite False (m / 2 ^ n)"
      using scale_down [OF e K0 K1 _ ov, of n] n14 by simp
    moreover have "pow2 (e - 15) * 2 ^ n = 1"
    proof -
      have "pow2 (e - 15) * pow2 (int n) = pow2 0"
        unfolding pow2_add [symmetric] using False by (simp add: n_def)
      then show ?thesis by (simp add: pow2_nat pow2_def)
    qed
    then have "m / 2 ^ n = m * pow2 (e - 15)"
      by (simp add: field_simps)
    ultimately show ?thesis using False by (simp add: m_def n_def)
  qed
qed

lemma read_f16_be_general:
  "read_f16_be [a, b] =
     (let n = uint a * 256 + uint b; s = (32768 \<le> n); e = n div 1024 mod 32; k = n mod 1024
      in if e = 0 then Finite s (of_int k / 1024 * pow2 (- 14))
         else if e = 31 then (if k = 0 then Infinity s else NaN)
         else Finite s ((1 + of_int k / 1024) * pow2 (e - 15)))"
proof -
  define h where "h = read_u16_be [a, b]"
  define n where "n = uint a * 256 + uint b"
  define e where "e = n div 1024 mod 32"
  define k where "k = n mod 1024"
  have un: "uint h = n" unfolding h_def n_def by (rule uint_read_u16_be)
  have n0: "0 \<le> n" and n1: "n < 65536"
    using uint_lt2p [of h] uint_ge_0 [of h] unfolding un by simp_all
  have ue: "uint (f16_exp h) = e" unfolding e_def un [symmetric] by (rule uint_f16_exp)
  have uk: "uint (f16_frac h) = k" unfolding k_def un [symmetric] by (rule uint_f16_frac)
  have us: "uint (f16_sign h) = n div 32768 mod 2" unfolding un [symmetric] by (rule uint_f16_sign)
  have k0: "0 \<le> k" and k1: "k < 1024" unfolding k_def by simp_all
  have e0: "0 \<le> e" and e32: "e < 32" unfolding e_def by simp_all
  have ez: "f16_exp h = 0 \<longleftrightarrow> e = 0" unfolding ue [symmetric] by (simp add: uint_0_iff)
  have "uint (31 :: 32 word) = 31" by simp
  then have e31: "f16_exp h = 31 \<longleftrightarrow> e = 31"
    unfolding ue [symmetric] by (simp only: word_uint_eq_iff)
  have kz: "f16_frac h = 0 \<longleftrightarrow> k = 0" unfolding uk [symmetric] by (simp add: uint_0_iff)
  have "f16_sign h \<noteq> 0 \<longleftrightarrow> n div 32768 mod 2 \<noteq> 0"
    unfolding us [symmetric] by (simp add: uint_0_iff)
  also have "\<dots> \<longleftrightarrow> 32768 \<le> n" using n0 n1 by auto
  finally have sg: "f16_sign h \<noteq> 0 \<longleftrightarrow> 32768 \<le> n" .
  have sub: "fp_mul binary32 (fp_div binary32 (fp_of_int binary32 k) (Finite False 1024))
           (Finite False (1 / 16384))
         = Finite False (of_int k / 1024 * pow2 (- 14))" if "k \<noteq> 0"
    using f16_subnormal_value [of k] that k0 k1 by simp
  have nrm: "(if e - 15 > 0
            then ((\<lambda>v. fp_mul binary32 v (Finite False 2)) ^^ nat (e - 15))
                   (Finite False (1 + of_int k / 1024))
          else ((\<lambda>v. fp_div binary32 v (Finite False 2)) ^^ nat (- (e - 15)))
                   (Finite False (1 + of_int k / 1024)))
         = Finite False ((1 + of_int k / 1024) * pow2 (e - 15))" if "e \<noteq> 0" "e \<noteq> 31"
    using f16_normal_value [OF k0 k1, of e] that e0 e32 by simp
  note sig = f16_significand [OF k0 k1]
  consider "e = 0" "k = 0" | "e = 0" "k \<noteq> 0" | "e = 31" | "e \<noteq> 0" "e \<noteq> 31" by blast
  then have "read_f16_be [a, b] =
      (if e = 0 then Finite (32768 \<le> n) (of_int k / 1024 * pow2 (- 14))
       else if e = 31 then (if k = 0 then Infinity (32768 \<le> n) else NaN)
       else Finite (32768 \<le> n) ((1 + of_int k / 1024) * pow2 (e - 15)))"
  proof cases
    case 1
    then show ?thesis
      unfolding read_f16_be_def Let_def h_def [symmetric] by (simp add: ez kz sg)
  next
    case 2
    then show ?thesis
      unfolding read_f16_be_def Let_def h_def [symmetric] uk
      by (simp add: ez kz sg sub)
  next
    case 3
    then show ?thesis
      unfolding read_f16_be_def Let_def h_def [symmetric]
      by (simp add: ez e31 kz sg)
  next
    case 4
    then show ?thesis
      unfolding read_f16_be_def Let_def h_def [symmetric] uk ue sig
      using nrm [OF 4] by (simp add: ez e31 sg)
  qed
  then show ?thesis
    unfolding Let_def n_def [symmetric] e_def [symmetric] k_def [symmetric] .
qed


text \<open>
  Claim C7.  The half-precision reader decodes big-endian 16-bit patterns as IEEE 754
  binary16: \<open>0x3C00\<close> is \<open>1.0\<close>, \<open>0x0000\<close> is \<open>+0.0\<close>, \<open>0x7C00\<close> is \<open>+\<infinity>\<close>,
  \<open>0xFC00\<close> is \<open>-\<infinity>\<close>, \<open>0x7E00\<close> is a NaN; and every subnormal pattern (exponent
  field 0, fraction field not 0) decodes to \<open>fraction / 1024 \<times> 2^-14\<close> with the sign of
  bit 15.  In general, for every pair of bytes \<open>a\<close>, \<open>b\<close>, with \<open>n = 256 a + b\<close> the
  pattern, sign \<open>s\<close> the bit 15 of \<open>n\<close>, exponent field \<open>e = n div 1024 mod 32\<close> and fraction
  field \<open>k = n mod 1024\<close>, the value read is \<open>(-1)^s \<times> k / 1024 \<times> 2^-14\<close> when \<open>e = 0\<close>,
  the infinity of sign \<open>s\<close> when \<open>e = 31\<close> and \<open>k = 0\<close>, a NaN when \<open>e = 31\<close> and \<open>k \<noteq> 0\<close>,
  and \<open>(-1)^s \<times> (1 + k / 1024) \<times> 2^(e - 15)\<close> otherwise.
\<close>

theorem read_f16_be_ieee:
  "read_f16_be [0x3C, 0x00] = Finite False 1
   \<and> read_f16_be [0x00, 0x00] = Finite False 0
   \<and> read_f16_be [0x7C, 0x00] = Infinity False
   \<and> read_f16_be [0xFC, 0x00] = Infinity True
   \<and> read_f16_be [0x7E, 0x00] = NaN
   \<and> (\<forall>a b. f16_exp (read_u16_be [a, b]) = 0 \<and> f16_frac (read_u16_be [a, b]) \<noteq> 0 \<longrightarrow>
         read_f16_be [a, b] =
           Finite (f16_sign (read_u16_be [a, b]) \<noteq> 0)
                  (of_int (uint (f16_frac (read_u16_be [a, b]))) / 1024 * pow2 (- 14)))
   \<and> (\<forall>a b. read_f16_be [a, b] =
         (let n = uint a * 256 + uint b; s = (32768 \<le> n);
              e = n div 1024 mod 32; k = n mod 1024
          in if e = 0 then Finite s (of_int k / 1024 * pow2 (- 14))
             else if e = 31 then (if k = 0 then Infinity s else NaN)
             else Finite s ((1 + of_int k / 1024) * pow2 (e - 15))))"
proof -
  have one: "read_f16_be [0x3C, 0x00] = Finite False 1" by code_simp
  have zero: "read_f16_be [0x00, 0x00] = Finite False 0" by code_simp
  have pinf: "read_f16_be [0x7C, 0x00] = Infinity False" by code_simp
  have ninf: "read_f16_be [0xFC, 0x00] = Infinity True" by code_simp
  have nan: "read_f16_be [0x7E, 0x00] = NaN" by code_simp
  have sub: "read_f16_be [a, b] =
           Finite (f16_sign (read_u16_be [a, b]) \<noteq> 0)
                  (of_int (uint (f16_frac (read_u16_be [a, b]))) / 1024 * pow2 (- 14))"
    if e: "f16_exp (read_u16_be [a, b]) = 0" and f: "f16_frac (read_u16_be [a, b]) \<noteq> 0"
    for a b
  proof -
    define k where "k = uint (f16_frac (read_u16_be [a, b]))"
    have k1: "k < 1024" unfolding k_def by (rule f16_frac_bound)
    have "k \<noteq> 0" unfolding k_def using f by (simp add: uint_0_iff)
    moreover have "0 \<le> k" unfolding k_def by simp
    ultimately have k0: "0 < k" by simp
    show ?thesis
      unfolding read_f16_be_def Let_def
      using e f f16_subnormal_value [OF k0 k1]
      by (simp add: k_def)
  qed
  have gen: "\<forall>a b. read_f16_be [a, b] =
         (let n = uint a * 256 + uint b; s = (32768 \<le> n);
              e = n div 1024 mod 32; k = n mod 1024
          in if e = 0 then Finite s (of_int k / 1024 * pow2 (- 14))
             else if e = 31 then (if k = 0 then Infinity s else NaN)
             else Finite s ((1 + of_int k / 1024) * pow2 (e - 15)))"
    using read_f16_be_general by blast
  have sub': "\<forall>a b. f16_exp (read_u16_be [a, b]) = 0 \<and> f16_frac (read_u16_be [a, b]) \<noteq> 0 \<longrightarrow>
         read_f16_be [a, b] =
           Finite (f16_sign (read_u16_be [a, b]) \<noteq> 0)
                  (of_int (uint (f16_frac (read_u16_be [a, b]))) / 1024 * pow2 (- 14))"
    using sub by blast
  from one zero pinf ninf nan sub' gen show ?thesis by (intro conjI)
qed

theorem read_f16_be_ieee_witness:
  "f16_exp (read_u16_be [0x80, 0x01]) = 0
   \<and> f16_frac (read_u16_be [0x80, 0x01]) \<noteq> 0
   \<and> read_f16_be [0x80, 0x01] = Finite True (1 / 16777216)"
proof -
  have e: "f16_exp (read_u16_be [0x80, 0x01]) = 0" by code_simp
  have f: "f16_frac (read_u16_be [0x80, 0x01]) = 1" by code_simp
  have s: "f16_sign (read_u16_be [0x80, 0x01]) = 1" by code_simp
  have p: "pow2 (- 14) = 1 / 16384" by (simp add: pow2_def power_int_minus)
  from read_f16_be_ieee
  have "f16_exp (read_u16_be [0x80, 0x01]) = 0 \<and> f16_frac (read_u16_be [0x80, 0x01]) \<noteq> 0 \<longrightarrow>
         read_f16_be [0x80, 0x01] =
           Finite (f16_sign (read_u16_be [0x80, 0x01]) \<noteq> 0)
                  (of_int (uint (f16_frac (read_u16_be [0x80, 0x01]))) / 1024 * pow2 (- 14))"
    by blast
  then show ?thesis using e by (simp add: f s p)
qed


section \<open>Properties of the decoder loop\<close>

lemma decode_field_skip:
  "f_type fld = FIELD_TYPE_SKIP \<Longrightarrow>
   decode_field fld buf pos vars e =
     Some (FieldOk (pos + (if f_size fld = 0 then 1 else f_size fld)) None vars)"
  by (simp add: decode_field_def Let_def)

lemma decode_step_skip:
  "f_type fld = FIELD_TYPE_SKIP \<Longrightarrow> length (st_out st) < SCHEMA_MAX_FIELDS \<Longrightarrow>
   decode_step s buf fld st =
     Continue (st\<lparr>st_pos := st_pos st + (if f_size fld = 0 then 1 else f_size fld)\<rparr>)"
  by (simp add: decode_step_def decode_slot_def decode_field_skip)



lemma decode_slot_abort:
  "decode_slot emit s buf fld st = Abort rc st' \<Longrightarrow> st' = st"
  by (auto simp: decode_slot_def split: if_splits option.splits field_result.splits)

text \<open>On the regular path a field whose name is empty or begins with an underscore
  adds nothing to the output.\<close>

lemma decode_step_internal:
  "f_type fld \<noteq> FIELD_TYPE_MATCH \<Longrightarrow> \<not> regular_emit fld \<Longrightarrow>
   decode_step s buf fld st = Continue st' \<Longrightarrow> st_out st' = st_out st"
  by (auto simp: decode_step_def decode_slot_def
           split: if_splits option.splits field_result.splits)

lemma decode_fields_abort_split:
  "decode_fields s buf fs st0 = Abort rc st' \<Longrightarrow>
   \<exists>pre fld post st. fs = pre @ fld # post \<and> decode_fields s buf pre st0 = Continue st
      \<and> decode_step s buf fld st = Abort rc st'"
proof (induction fs arbitrary: st0)
  case Nil
  then show ?case by simp
next
  case (Cons f fs)
  show ?case
  proof (cases "decode_step s buf f st0")
    case (Continue st1)
    with Cons.prems have "decode_fields s buf fs st1 = Abort rc st'" by simp
    from Cons.IH [OF this] obtain pre fld post st where
      h: "fs = pre @ fld # post" "decode_fields s buf pre st1 = Continue st"
         "decode_step s buf fld st = Abort rc st'" by blast
    have "f # fs = (f # pre) @ fld # post" using h(1) by simp
    moreover have "decode_fields s buf (f # pre) st0 = Continue st" using Continue h(2) by simp
    ultimately show ?thesis using h(3) by blast
  next
    case (Abort rc1 st1)
    with Cons.prems have "rc1 = rc" "st1 = st'" by simp_all
    then have "f # fs = [] @ f # fs \<and> decode_fields s buf [] st0 = Continue st0
      \<and> decode_step s buf f st0 = Abort rc st'" using Abort by simp
    then show ?thesis by blast
  next
    case Undefined
    with Cons.prems show ?thesis by simp
  qed
qed


text \<open>Where a step aborts: a field that is not a match aborts in its own
  \<open>decode_field\<close> call; a match aborts in the call for one field of the selected case,
  after the fields of the case before it were decoded and counted.\<close>

lemma decode_slot_abort_field:
  "decode_slot emit s buf fld st = Abort rc st' \<Longrightarrow>
   st' = st \<and> decode_field fld buf (st_pos st) (st_vars st) (s_endian s) = Some (FieldError rc)"
  by (auto simp: decode_slot_def split: if_splits option.splits field_result.splits)

lemma decode_case_fields_abort:
  "decode_case_fields s buf start f n st = Abort rc st' \<Longrightarrow>
   \<exists>j. j < n \<and> decode_case_fields s buf start f j st = Continue st'
      \<and> 0 \<le> start + int (f + j) \<and> start + int (f + j) < int (length (s_fields s))
      \<and> decode_field (s_fields s ! nat (start + int (f + j))) buf (st_pos st') (st_vars st')
           (s_endian s) = Some (FieldError rc)"
proof (induction n arbitrary: f st)
  case 0
  then show ?case by simp
next
  case (Suc n)
  let ?idx = "start + int f"
  from Suc.prems have in_range: "?idx < int (length (s_fields s))" "0 \<le> ?idx"
    by (auto simp: Let_def split: if_splits)
  show ?case
  proof (cases "decode_slot True s buf (s_fields s ! nat ?idx) st")
    case (Continue st1)
    with Suc.prems in_range have "decode_case_fields s buf start (Suc f) n st1 = Abort rc st'"
      by (simp add: Let_def)
    from Suc.IH [OF this] obtain j where j: "j < n"
      "decode_case_fields s buf start (Suc f) j st1 = Continue st'"
      "0 \<le> start + int (Suc f + j)" "start + int (Suc f + j) < int (length (s_fields s))"
      "decode_field (s_fields s ! nat (start + int (Suc f + j))) buf (st_pos st') (st_vars st')
           (s_endian s) = Some (FieldError rc)" by blast
    have "decode_case_fields s buf start f (Suc j) st = Continue st'"
      using Continue in_range j(2) by (simp add: Let_def)
    moreover have "Suc f + j = f + Suc j" by simp
    ultimately show ?thesis using j by (intro exI [of _ "Suc j"]) simp
  next
    case (Abort rc1 st1)
    with Suc.prems in_range have e: "rc1 = rc" "st1 = st'" by (simp_all add: Let_def)
    from decode_slot_abort_field [OF Abort [unfolded e]]
    have "st' = st" "decode_field (s_fields s ! nat ?idx) buf (st_pos st) (st_vars st) (s_endian s)
                      = Some (FieldError rc)" by simp_all
    then show ?thesis using in_range by (intro exI [of _ 0]) simp
  next
    case Undefined
    with Suc.prems in_range show ?thesis by (simp add: Let_def)
  qed
qed

lemma decode_step_abort:
  assumes "decode_step s buf fld st = Abort rc st'"
  shows "(f_type fld \<noteq> FIELD_TYPE_MATCH \<longrightarrow>
            st' = st
            \<and> decode_field fld buf (st_pos st) (st_vars st) (s_endian s) = Some (FieldError rc))
       \<and> (f_type fld = FIELD_TYPE_MATCH \<longrightarrow>
            (\<exists>cs j. find_case (f_cases fld)
                        (var_get (st_vars st) (strip_dollar (f_match_var fld))) = Some cs
               \<and> j < nat (field_count cs)
               \<and> decode_case_fields s buf (field_start cs) 0 j st = Continue st'
               \<and> 0 \<le> field_start cs + int j
               \<and> field_start cs + int j < int (length (s_fields s))
               \<and> decode_field (s_fields s ! nat (field_start cs + int j)) buf
                    (st_pos st') (st_vars st') (s_endian s) = Some (FieldError rc)))"
proof (cases "f_type fld = FIELD_TYPE_MATCH")
  case False
  then show ?thesis
    using assms decode_slot_abort_field [of "regular_emit fld" s buf fld st rc st']
    by (simp add: decode_step_def)
next
  case True
  define mv where "mv = var_get (st_vars st) (strip_dollar (f_match_var fld))"
  from assms True obtain cs where cs: "find_case (f_cases fld) mv = Some cs"
    and ab: "decode_case_fields s buf (field_start cs) 0 (nat (field_count cs)) st = Abort rc st'"
    by (auto simp: decode_step_def Let_def mv_def split: option.splits)
  from decode_case_fields_abort [OF ab] obtain j where
    "j < nat (field_count cs)" "decode_case_fields s buf (field_start cs) 0 j st = Continue st'"
    "0 \<le> field_start cs + int j" "field_start cs + int j < int (length (s_fields s))"
    "decode_field (s_fields s ! nat (field_start cs + int j)) buf
                    (st_pos st') (st_vars st') (s_endian s) = Some (FieldError rc)"
    by auto
  then show ?thesis using True cs unfolding mv_def by blast
qed


section \<open>Match dispatch on the flat field list\<close>

text \<open>
  Claim C2.  For the schema \<open>u8 msg_type\<close> (bound to \<open>msg_type\<close>), \<open>match $msg_type\<close> with
  case 1 selecting entry 2 (\<open>s16 temperature\<close>, \<open>\<times>0.01\<close>, big-endian) and case 2 selecting
  entry 3 (\<open>u8 humidity\<close>), the claim expects a successful decode of \<open>01 09 29\<close> and of
  \<open>02 64\<close>.  The main loop does not step over the case entries: after the match it
  decodes entry 2 again as a regular field, finds no bytes left, and returns
  \<open>SCHEMA_ERR_BUFFER\<close>; the fields of the selected case are in the result, with
  \<open>bytes_consumed\<close> 0.
\<close>

theorem match_dispatch_underrun:
  "schema_decode match_schema [0x01, 0x09, 0x29] =
     Some \<lparr>r_fields =
             [\<lparr>d_name = ''msg_type'', d_value = V_f64 (fp_literal 1), d_type = FIELD_TYPE_U8\<rparr>,
              \<lparr>d_name = ''temperature'', d_value = V_f64 (fp_literal (2345 / 100)),
               d_type = FIELD_TYPE_S16\<rparr>],
           r_bytes_consumed = 0, r_error_code = SCHEMA_ERR_BUFFER\<rparr>
   \<and> schema_decode match_schema [0x02, 0x64] =
     Some \<lparr>r_fields =
             [\<lparr>d_name = ''msg_type'', d_value = V_f64 (fp_literal 2), d_type = FIELD_TYPE_U8\<rparr>,
              \<lparr>d_name = ''humidity'', d_value = V_f64 (fp_literal 100), d_type = FIELD_TYPE_U8\<rparr>],
           r_bytes_consumed = 0, r_error_code = SCHEMA_ERR_BUFFER\<rparr>"
proof -
  have a: "schema_decode match_schema [0x01, 0x09, 0x29] =
     Some \<lparr>r_fields =
             [\<lparr>d_name = ''msg_type'', d_value = V_f64 (fp_literal 1), d_type = FIELD_TYPE_U8\<rparr>,
              \<lparr>d_name = ''temperature'', d_value = V_f64 (fp_literal (2345 / 100)),
               d_type = FIELD_TYPE_S16\<rparr>],
           r_bytes_consumed = 0, r_error_code = SCHEMA_ERR_BUFFER\<rparr>"
    by code_simp
  have b: "schema_decode match_schema [0x02, 0x64] =
     Some \<lparr>r_fields =
             [\<lparr>d_name = ''msg_type'', d_value = V_f64 (fp_literal 2), d_type = FIELD_TYPE_U8\<rparr>,
              \<lparr>d_name = ''humidity'', d_value = V_f64 (fp_literal 100), d_type = FIELD_TYPE_U8\<rparr>],
           r_bytes_consumed = 0, r_error_code = SCHEMA_ERR_BUFFER\<rparr>"
    by code_simp
  from a b show ?thesis by (rule conjI)
qed


section \<open>Internal fields reached through a match\<close>

text \<open>
  Claim C3.  Fields whose name begins with an underscore are to be suppressed from the
  output, also when they are decoded through a selected match case.  The regular path
  tests the name (\<open>decode_step_internal\<close>); the match path counts every valid field.  For the schema \<open>u8 kind\<close>
  (bound to \<open>kind\<close>), \<open>match $kind\<close> with case 1 selecting entry 2, \<open>u8 _hidden\<close>, the
  payload \<open>01 07 09\<close> decodes successfully and its output contains \<open>_hidden = 7\<close>.
\<close>

theorem match_case_emits_internal_field:
  "schema_decode internal_case_schema [0x01, 0x07, 0x09] =
     Some \<lparr>r_fields =
             [\<lparr>d_name = ''kind'', d_value = V_f64 (fp_literal 1), d_type = FIELD_TYPE_U8\<rparr>,
              \<lparr>d_name = ''_hidden'', d_value = V_f64 (fp_literal 7), d_type = FIELD_TYPE_U8\<rparr>],
           r_bytes_consumed = 3, r_error_code = SCHEMA_OK\<rparr>"
  by code_simp


section \<open>Skip fields\<close>

text \<open>
  Claim C9.  Decoding a skip field makes no bounds check: \<open>decode_field\<close> returns
  \<open>SCHEMA_OK\<close> with the cursor advanced by the size of the field, or by 1 when the size
  is 0, whatever the length of the buffer; so the main loop goes on after a skip field
  (as long as the result still has a free slot); and the schema with the single field
  \<open>skip 4\<close> decodes the empty payload successfully with 4 bytes consumed.
\<close>

theorem skip_has_no_bounds_check:
  "(f_type fld = FIELD_TYPE_SKIP \<longrightarrow>
      decode_field fld buf pos vars e =
        Some (FieldOk (pos + (if f_size fld = 0 then 1 else f_size fld)) None vars))
   \<and> (f_type fld = FIELD_TYPE_SKIP \<and> length (st_out st) < SCHEMA_MAX_FIELDS \<longrightarrow>
      decode_step s buf fld st =
        Continue (st\<lparr>st_pos := st_pos st + (if f_size fld = 0 then 1 else f_size fld)\<rparr>))
   \<and> schema_decode skip_schema [] =
        Some \<lparr>r_fields = [], r_bytes_consumed = 4, r_error_code = SCHEMA_OK\<rparr>
   \<and> int (length ([] :: byte list)) < 4"
proof -
  have "schema_decode skip_schema [] =
        Some \<lparr>r_fields = [], r_bytes_consumed = 4, r_error_code = SCHEMA_OK\<rparr>"
    by code_simp
  then show ?thesis
    using decode_field_skip [of fld buf pos vars e] decode_step_skip [of fld st s buf]
    by simp
qed

theorem skip_has_no_bounds_check_witness:
  "f_type (field_skip 0) = FIELD_TYPE_SKIP
   \<and> decode_field (field_skip 0) [0x01] 5 [] ENDIAN_BIG = Some (FieldOk 6 None [])
   \<and> decode_step skip_schema [0x01] (field_skip 0) \<lparr>st_pos = 5, st_vars = [], st_out = []\<rparr>
        = Continue \<lparr>st_pos = 6, st_vars = [], st_out = []\<rparr>"
proof -
  have t: "f_type (field_skip 0) = FIELD_TYPE_SKIP"
    by (simp add: field_skip_def field_of_def field_blank_def)
  have z: "f_size (field_skip 0) = 0"
    by (simp add: field_skip_def field_of_def field_blank_def)
  have n: "length (st_out \<lparr>st_pos = 5, st_vars = [], st_out = []\<rparr>) < SCHEMA_MAX_FIELDS"
    by (simp add: SCHEMA_MAX_FIELDS_def)
  show ?thesis
    using skip_has_no_bounds_check
      [of "field_skip 0" "[0x01]" 5 "[]" ENDIAN_BIG
          "\<lparr>st_pos = 5, st_vars = [], st_out = []\<rparr>" skip_schema]
      t z n
    by simp
qed


section \<open>Variables that were never bound\<close>




section \<open>A missing encoder input\<close>

lemma encode_field_missing:
  "find_input inputs (f_name fld) = None \<Longrightarrow> f_type fld \<noteq> FIELD_TYPE_SKIP \<Longrightarrow>
   encode_field fld inputs buf pos e = Some (EncError SCHEMA_ERR_PARSE)"
  by (simp add: encode_field_def)

text \<open>
  Claim C4.  When a non-skip field has no input, \<open>schema_encode\<close> is to fail with the
  missing-input code, \<open>-7\<close>.  The test in \<open>encode_field\<close>, commented \<open>Missing input\<close>,
  returns \<open>SCHEMA_ERR_PARSE\<close>, which is \<open>-1\<close>: for the schema \<open>u8 temperature\<close>,
  \<open>u8 humidity\<close> and the single input \<open>temperature = 25.0\<close> the error code of the result
  is \<open>-1\<close>, and \<open>SCHEMA_ERR_MISSING\<close> is returned nowhere.
\<close>

theorem missing_input_returns_parse_error:
  "map_option e_error_code (schema_encode missing_schema missing_inputs) = Some SCHEMA_ERR_PARSE
   \<and> SCHEMA_ERR_PARSE = - 1 \<and> SCHEMA_ERR_MISSING = - 7"
proof -
  have "map_option e_error_code (schema_encode missing_schema missing_inputs)
        = Some SCHEMA_ERR_PARSE"
    by code_simp
  then show ?thesis by (simp add: SCHEMA_ERR_PARSE_def SCHEMA_ERR_MISSING_def)
qed


section \<open>The result of a failed decode\<close>

text \<open>
  Claim C5 as stated: after a buffer underrun the bytes-consumed count is the cursor
  after the last successful advance.  For the schema \<open>u8 a\<close>, \<open>u16 b\<close> and the payload
  \<open>01 02\<close> the loop fails on \<open>b\<close> with the cursor at 1 and one field produced, and the
  result reports 0 bytes consumed.
\<close>

theorem underrun_cursor_counterexample:
  "decode_fields short_schema [0x01, 0x02] (s_fields short_schema)
       \<lparr>st_pos = 0, st_vars = [], st_out = []\<rparr>
     = Abort SCHEMA_ERR_BUFFER
         \<lparr>st_pos = 1, st_vars = [],
          st_out = [\<lparr>d_name = ''a'', d_value = V_f64 (fp_literal 1), d_type = FIELD_TYPE_U8\<rparr>]\<rparr>
   \<and> schema_decode short_schema [0x01, 0x02]
     = Some \<lparr>r_fields = [\<lparr>d_name = ''a'', d_value = V_f64 (fp_literal 1), d_type = FIELD_TYPE_U8\<rparr>],
             r_bytes_consumed = 0, r_error_code = SCHEMA_ERR_BUFFER\<rparr>"
proof -
  have a: "decode_fields short_schema [0x01, 0x02] (s_fields short_schema)
       \<lparr>st_pos = 0, st_vars = [], st_out = []\<rparr>
     = Abort SCHEMA_ERR_BUFFER
         \<lparr>st_pos = 1, st_vars = [],
          st_out = [\<lparr>d_name = ''a'', d_value = V_f64 (fp_literal 1), d_type = FIELD_TYPE_U8\<rparr>]\<rparr>"
    by code_simp
  then show ?thesis by (simp add: schema_decode_def)
qed

text \<open>
  Claim C5, amended.  Whenever decoding fails with a buffer underrun, the error code of
  the result is \<open>-2\<close>, its bytes-consumed count is 0, and its field list is the list of
  the fields counted before the failing call of \<open>decode_field\<close>: the schema splits into
  the fields decoded without error, the field whose step failed and the rest.  When the
  failing field is not a match, its own \<open>decode_field\<close> call returns the underrun and the
  result holds the fields counted by the fields before it.  When it is a match, the
  call that returns the underrun is the one for field \<open>j\<close> of the selected case, and the
  result holds the fields counted by the fields before the match and by the first \<open>j\<close>
  fields of the case.  A two-byte payload against a single big-endian \<open>u24\<close> gives a
  buffer underrun with no field; the payload \<open>01 09\<close> against the schema of
  \<open>test_match\<close> underruns inside case 1 and the result holds \<open>msg_type\<close>.
\<close>

theorem underrun_result:
  assumes "schema_decode s buf = Some r" and "r_error_code r = SCHEMA_ERR_BUFFER"
  shows "r_bytes_consumed r = 0
   \<and> (\<exists>pre fld post st st'.
         s_fields s = pre @ fld # post
         \<and> decode_fields s buf pre \<lparr>st_pos = 0, st_vars = [], st_out = []\<rparr> = Continue st
         \<and> decode_step s buf fld st = Abort SCHEMA_ERR_BUFFER st'
         \<and> r_fields r = st_out st'
         \<and> (f_type fld \<noteq> FIELD_TYPE_MATCH \<longrightarrow>
              st' = st
              \<and> decode_field fld buf (st_pos st) (st_vars st) (s_endian s)
                  = Some (FieldError SCHEMA_ERR_BUFFER))
         \<and> (f_type fld = FIELD_TYPE_MATCH \<longrightarrow>
              (\<exists>cs j. find_case (f_cases fld)
                          (var_get (st_vars st) (strip_dollar (f_match_var fld))) = Some cs
                 \<and> j < nat (field_count cs)
                 \<and> decode_case_fields s buf (field_start cs) 0 j st = Continue st'
                 \<and> 0 \<le> field_start cs + int j
                 \<and> field_start cs + int j < int (length (s_fields s))
                 \<and> decode_field (s_fields s ! nat (field_start cs + int j)) buf
                      (st_pos st') (st_vars st') (s_endian s)
                     = Some (FieldError SCHEMA_ERR_BUFFER))))
   \<and> schema_decode u24_schema [0x01, 0x02]
       = Some \<lparr>r_fields = [], r_bytes_consumed = 0, r_error_code = SCHEMA_ERR_BUFFER\<rparr>
   \<and> schema_decode match_schema [0x01, 0x09]
       = Some \<lparr>r_fields = [\<lparr>d_name = ''msg_type'', d_value = V_f64 (fp_literal 1),
                              d_type = FIELD_TYPE_U8\<rparr>],
               r_bytes_consumed = 0, r_error_code = SCHEMA_ERR_BUFFER\<rparr>"
proof -
  define init where "init = \<lparr>st_pos = 0, st_vars = [], st_out = []\<rparr>"
  have ne: "SCHEMA_OK \<noteq> SCHEMA_ERR_BUFFER"
    by (simp add: SCHEMA_OK_def SCHEMA_ERR_BUFFER_def)
  obtain st' where ab: "decode_fields s buf (s_fields s) init = Abort SCHEMA_ERR_BUFFER st'"
    and r: "r = \<lparr>r_fields = st_out st', r_bytes_consumed = 0, r_error_code = SCHEMA_ERR_BUFFER\<rparr>"
  proof (cases "decode_fields s buf (s_fields s) init")
    case (Continue st1)
    with assms ne show ?thesis by (auto simp: schema_decode_def init_def)
  next
    case (Abort rc st1)
    with assms have "r = \<lparr>r_fields = st_out st1, r_bytes_consumed = 0, r_error_code = rc\<rparr>"
      by (auto simp: schema_decode_def init_def)
    moreover from this assms(2) have "rc = SCHEMA_ERR_BUFFER" by simp
    ultimately show ?thesis using Abort that by simp
  next
    case Undefined
    with assms show ?thesis by (simp add: schema_decode_def init_def)
  qed
  from decode_fields_abort_split [OF ab] obtain pre fld post st where
    sp: "s_fields s = pre @ fld # post" "decode_fields s buf pre init = Continue st"
        "decode_step s buf fld st = Abort SCHEMA_ERR_BUFFER st'" by blast
  note da = decode_step_abort [OF sp(3)]
  have u24: "schema_decode u24_schema [0x01, 0x02]
       = Some \<lparr>r_fields = [], r_bytes_consumed = 0, r_error_code = SCHEMA_ERR_BUFFER\<rparr>"
    by code_simp
  have mt: "schema_decode match_schema [0x01, 0x09]
       = Some \<lparr>r_fields = [\<lparr>d_name = ''msg_type'', d_value = V_f64 (fp_literal 1),
                              d_type = FIELD_TYPE_U8\<rparr>],
               r_bytes_consumed = 0, r_error_code = SCHEMA_ERR_BUFFER\<rparr>"
    by code_simp
  have rf: "r_fields r = st_out st'" using r by simp
  have ex: "\<exists>pre fld post st st'.
         s_fields s = pre @ fld # post
         \<and> decode_fields s buf pre init = Continue st
         \<and> decode_step s buf fld st = Abort SCHEMA_ERR_BUFFER st'
         \<and> r_fields r = st_out st'
         \<and> (f_type fld \<noteq> FIELD_TYPE_MATCH \<longrightarrow>
              st' = st
              \<and> decode_field fld buf (st_pos st) (st_vars st) (s_endian s)
                  = Some (FieldError SCHEMA_ERR_BUFFER))
         \<and> (f_type fld = FIELD_TYPE_MATCH \<longrightarrow>
              (\<exists>cs j. find_case (f_cases fld)
                          (var_get (st_vars st) (strip_dollar (f_match_var fld))) = Some cs
                 \<and> j < nat (field_count cs)
                 \<and> decode_case_fields s buf (field_start cs) 0 j st = Continue st'
                 \<and> 0 \<le> field_start cs + int j
                 \<and> field_start cs + int j < int (length (s_fields s))
                 \<and> decode_field (s_fields s ! nat (field_start cs + int j)) buf
                      (st_pos st') (st_vars st') (s_endian s)
                     = Some (FieldError SCHEMA_ERR_BUFFER)))"
    using sp rf da by blast
  have bc: "r_bytes_consumed r = 0" using r by simp
  from bc ex [unfolded init_def] u24 mt show ?thesis by (intro conjI)
qed

theorem underrun_result_witness:
  "schema_decode short_schema [0x01, 0x02]
     = Some \<lparr>r_fields = [\<lparr>d_name = ''a'', d_value = V_f64 (fp_literal 1), d_type = FIELD_TYPE_U8\<rparr>],
             r_bytes_consumed = 0, r_error_code = SCHEMA_ERR_BUFFER\<rparr>
   \<and> r_bytes_consumed
        \<lparr>r_fields = [\<lparr>d_name = ''a'', d_value = V_f64 (fp_literal 1), d_type = FIELD_TYPE_U8\<rparr>],
         r_bytes_consumed = 0, r_error_code = SCHEMA_ERR_BUFFER\<rparr> = 0"
proof -
  define r0 where "r0 = \<lparr>r_fields = [\<lparr>d_name = ''a'', d_value = V_f64 (fp_literal 1), d_type = FIELD_TYPE_U8\<rparr>],
             r_bytes_consumed = 0, r_error_code = SCHEMA_ERR_BUFFER\<rparr>"
  have h1: "schema_decode short_schema [0x01, 0x02] = Some r0"
    unfolding r0_def by code_simp
  have h2: "r_error_code r0 = SCHEMA_ERR_BUFFER" by (simp add: r0_def)
  from underrun_result [OF h1 h2] have "r_bytes_consumed r0 = 0" by blast
  then show ?thesis using h1 unfolding r0_def by simp
qed


section \<open>Loading a binary descriptor\<close>

























section \<open>Encoding and decoding plain integer fields\<close>

lemma pow2_numeral_bound: "(2::rat) ^ n = pow2 (int n)"
  by (simp add: pow2_nat)






lemma le_bytes_1: "le_bytes 1 v = [word_of_int v]"
  by (simp add: le_bytes_def)








































text \<open>The bound on the magnitude is needed: the encoder's rounding turns the input
  \<open>2 ^ 52 + 1\<close> into \<open>2 ^ 52 + 2\<close>, since the sum with one half is a tie that rounds to
  even.\<close>

lemma round_to_int64_above_bound:
  "round_to_int64 (fp_of_int binary64 (2 ^ 52 + 1)) = Some (2 ^ 52 + 2)"
  by code_simp






end
